theory Spec2Isabelle
  imports Complex_Main
begin

section \<open>Failures and the object store\<close>

text \<open>
  The C++ source has no recoverable errors: a failed \<^verbatim>\<open>assert\<close>, a read through a
  null or deleted pointer and an index outside an array all end the run. Each is a value
  of \<open>error\<close> here, and every operation that can reach one returns \<open>error + 'a\<close>.
\<close>

datatype error = NullDereference | DanglingPointer | IndexOutOfRange | AssertionFailed

type_synonym addr = nat

text \<open>
  Objects made by \<^verbatim>\<open>new\<close> live in a typed heap: a list of slots, the address being the
  index. \<^verbatim>\<open>new\<close> appends a slot, \<^verbatim>\<open>delete\<close> empties it, a null pointer is \<open>None\<close>.
\<close>

definition live :: "'a option list \<Rightarrow> addr \<Rightarrow> bool" where
  "live h a \<longleftrightarrow> a < length h \<and> h ! a \<noteq> None"

definition heap_new :: "'a option list \<Rightarrow> 'a \<Rightarrow> 'a option list \<times> addr" where
  "heap_new h v = (h @ [Some v], length h)"

definition heap_read :: "'a option list \<Rightarrow> addr \<Rightarrow> error + 'a" where
  "heap_read h a =
     (if a < length h
      then (case h ! a of None \<Rightarrow> Inl DanglingPointer | Some v \<Rightarrow> Inr v)
      else Inl DanglingPointer)"

definition heap_delete :: "'a option list \<Rightarrow> addr option \<Rightarrow> error + 'a option list" where
  \<comment> \<open>\<^verbatim>\<open>delete p\<close>: nothing happens for a null pointer.\<close>
  "heap_delete h p =
     (case p of
        None \<Rightarrow> Inr h
      | Some a \<Rightarrow> if live h a then Inr (h[a := None]) else Inl DanglingPointer)"

section \<open>The state container \<^verbatim>\<open>SBState\<close>\<close>

text \<open>
  An \<^verbatim>\<open>SBState\<close> holds two owning pointers, either of which may be null. The classes
  \<^verbatim>\<open>SimbodyTreeVariables\<close> and \<^verbatim>\<open>SimbodyTreeResults\<close> are declared outside this file;
  their values are the type parameters \<open>'v\<close> and \<open>'c\<close>, and their copy constructors
  copy the value. State objects have addresses of their own, since \<^verbatim>\<open>operator=\<close>
  compares \<^verbatim>\<open>&src\<close> with \<^verbatim>\<open>this\<close>.
\<close>

record sb_state =
  vars :: "addr option"
  cache :: "addr option"

record ('v, 'c) sb_memory =
  sbStates :: "addr \<Rightarrow> sb_state option"
  varsHeap :: "'v option list"
  cacheHeap :: "'c option list"

definition null_state :: sb_state where
  "null_state = \<lparr>vars = None, cache = None\<rparr>"

definition copy_vars :: "('v, 'c) sb_memory \<Rightarrow> addr \<Rightarrow> addr \<Rightarrow> error + ('v, 'c) sb_memory" where
  \<comment> \<open>\<^verbatim>\<open>if (src.vars) vars = new SimbodyTreeVariables(*src.vars);\<close>\<close>
  "copy_vars m this src =
     (case sbStates m src of
        None \<Rightarrow> Inl DanglingPointer
      | Some s \<Rightarrow>
          (case vars s of
             None \<Rightarrow> Inr m
           | Some a \<Rightarrow>
               (case heap_read (varsHeap m) a of
                  Inl e \<Rightarrow> Inl e
                | Inr v \<Rightarrow>
                    (case sbStates m this of
                       None \<Rightarrow> Inl DanglingPointer
                     | Some t \<Rightarrow>
                         (let (h, p) = heap_new (varsHeap m) v
                          in Inr (m\<lparr>varsHeap := h,
                                    sbStates := (sbStates m)(this \<mapsto> t\<lparr>vars := Some p\<rparr>)\<rparr>))))))"

definition copy_cache :: "('v, 'c) sb_memory \<Rightarrow> addr \<Rightarrow> addr \<Rightarrow> error + ('v, 'c) sb_memory" where
  \<comment> \<open>\<^verbatim>\<open>if (src.cache) cache = new SimbodyTreeResults(*src.cache);\<close>\<close>
  "copy_cache m this src =
     (case sbStates m src of
        None \<Rightarrow> Inl DanglingPointer
      | Some s \<Rightarrow>
          (case cache s of
             None \<Rightarrow> Inr m
           | Some a \<Rightarrow>
               (case heap_read (cacheHeap m) a of
                  Inl e \<Rightarrow> Inl e
                | Inr v \<Rightarrow>
                    (case sbStates m this of
                       None \<Rightarrow> Inl DanglingPointer
                     | Some t \<Rightarrow>
                         (let (h, p) = heap_new (cacheHeap m) v
                          in Inr (m\<lparr>cacheHeap := h,
                                    sbStates := (sbStates m)(this \<mapsto> t\<lparr>cache := Some p\<rparr>)\<rparr>))))))"

definition SBState_copy :: "('v, 'c) sb_memory \<Rightarrow> addr \<Rightarrow> addr \<Rightarrow> error + ('v, 'c) sb_memory" where
  \<comment> \<open>The copy constructor, building the object at \<open>this\<close> from the one at \<open>src\<close>.\<close>
  "SBState_copy m this src =
     (let m0 = m\<lparr>sbStates := (sbStates m)(this \<mapsto> null_state)\<rparr>
      in case copy_vars m0 this src of
           Inl e \<Rightarrow> Inl e
         | Inr m1 \<Rightarrow> copy_cache m1 this src)"

definition SBState_assign :: "('v, 'c) sb_memory \<Rightarrow> addr \<Rightarrow> addr \<Rightarrow> error + ('v, 'c) sb_memory" where
  \<comment> \<open>\<^verbatim>\<open>operator=\<close>, assigning the object at \<open>src\<close> to the one at \<open>this\<close>.\<close>
  "SBState_assign m this src =
     (if src \<noteq> this
      then (case sbStates m this of
              None \<Rightarrow> Inl DanglingPointer
            | Some t \<Rightarrow>
                (case heap_delete (varsHeap m) (vars t) of
                   Inl e \<Rightarrow> Inl e
                 | Inr vh \<Rightarrow>
                     (case heap_delete (cacheHeap m) (cache t) of
                        Inl e \<Rightarrow> Inl e
                      | Inr ch \<Rightarrow>
                          (let m0 = m\<lparr>sbStates := (sbStates m)(this \<mapsto> null_state),
                                       varsHeap := vh, cacheHeap := ch\<rparr>
                           in case copy_vars m0 this src of
                                Inl e \<Rightarrow> Inl e
                              | Inr m1 \<Rightarrow> copy_cache m1 this src))))
      else Inr m)"

text \<open>
  Observers used to state the copy laws: reading the variables (or the cache) of the state
  object at an address, and overwriting them in place through that object's pointer.
\<close>

definition get_vars :: "('v, 'c) sb_memory \<Rightarrow> addr \<Rightarrow> error + 'v option" where
  "get_vars m x =
     (case sbStates m x of
        None \<Rightarrow> Inl DanglingPointer
      | Some s \<Rightarrow>
          (case vars s of
             None \<Rightarrow> Inr None
           | Some a \<Rightarrow>
               (case heap_read (varsHeap m) a of Inl e \<Rightarrow> Inl e | Inr v \<Rightarrow> Inr (Some v))))"

definition get_cache :: "('v, 'c) sb_memory \<Rightarrow> addr \<Rightarrow> error + 'c option" where
  "get_cache m x =
     (case sbStates m x of
        None \<Rightarrow> Inl DanglingPointer
      | Some s \<Rightarrow>
          (case cache s of
             None \<Rightarrow> Inr None
           | Some a \<Rightarrow>
               (case heap_read (cacheHeap m) a of Inl e \<Rightarrow> Inl e | Inr v \<Rightarrow> Inr (Some v))))"

definition set_vars :: "('v, 'c) sb_memory \<Rightarrow> addr \<Rightarrow> 'v \<Rightarrow> error + ('v, 'c) sb_memory" where
  "set_vars m x v =
     (case sbStates m x of
        None \<Rightarrow> Inl DanglingPointer
      | Some s \<Rightarrow>
          (case vars s of
             None \<Rightarrow> Inl NullDereference
           | Some a \<Rightarrow>
               if live (varsHeap m) a
               then Inr (m\<lparr>varsHeap := (varsHeap m)[a := Some v]\<rparr>)
               else Inl DanglingPointer))"

definition set_cache :: "('v, 'c) sb_memory \<Rightarrow> addr \<Rightarrow> 'c \<Rightarrow> error + ('v, 'c) sb_memory" where
  "set_cache m x v =
     (case sbStates m x of
        None \<Rightarrow> Inl DanglingPointer
      | Some s \<Rightarrow>
          (case cache s of
             None \<Rightarrow> Inl NullDereference
           | Some a \<Rightarrow>
               if live (cacheHeap m) a
               then Inr (m\<lparr>cacheHeap := (cacheHeap m)[a := Some v]\<rparr>)
               else Inl DanglingPointer))"

definition owns_live :: "('v, 'c) sb_memory \<Rightarrow> sb_state \<Rightarrow> bool" where
  \<comment> \<open>Each pointer of the state is null or points to an object that has not been deleted.\<close>
  "owns_live m s \<longleftrightarrow>
     (case vars s of None \<Rightarrow> True | Some a \<Rightarrow> live (varsHeap m) a) \<and>
     (case cache s of None \<Rightarrow> True | Some a \<Rightarrow> live (cacheHeap m) a)"

definition unshared :: "sb_state \<Rightarrow> sb_state \<Rightarrow> bool" where
  \<comment> \<open>Two states own different sub-objects.\<close>
  "unshared s t \<longleftrightarrow>
     (vars s = None \<or> vars s \<noteq> vars t) \<and> (cache s = None \<or> cache s \<noteq> cache t)"

definition deep_copy_of ::
  "('v, 'c) sb_memory \<Rightarrow> ('v, 'c) sb_memory \<Rightarrow> addr \<Rightarrow> addr \<Rightarrow> bool" where
  \<comment> \<open>In \<open>m'\<close> the state at \<open>this\<close> is a deep copy of what the state at \<open>src\<close> was in \<open>m\<close>.\<close>
  "deep_copy_of m m' this src \<longleftrightarrow>
     get_vars m' src = get_vars m src \<and> get_cache m' src = get_cache m src \<and>
     get_vars m' this = get_vars m src \<and> get_cache m' this = get_cache m src \<and>
     (get_vars m src \<noteq> Inr None \<longrightarrow>
        (\<forall>v. \<exists>m''. set_vars m' this v = Inr m'' \<and> get_vars m'' this = Inr (Some v) \<and>
                get_vars m'' src = get_vars m src \<and> get_cache m'' src = get_cache m src)) \<and>
     (get_cache m src \<noteq> Inr None \<longrightarrow>
        (\<forall>c. \<exists>m''. set_cache m' this c = Inr m'' \<and> get_cache m'' this = Inr (Some c) \<and>
                get_vars m'' src = get_vars m src \<and> get_cache m'' src = get_cache m src))"

section \<open>Double-precision values and vectors\<close>

text \<open>
  A \<^verbatim>\<open>double\<close> is a finite value or one of the three special values of IEEE 754
  arithmetic. Finite values are exact reals: rounding, overflow to infinity and the sign
  of zero are not modelled. The special values are modelled, since the source divides by
  a norm that can be zero: \<open>0 / 0\<close> is \<open>NaN\<close>, a non-zero value over \<open>0\<close> is an
  infinity, and \<open>NaN\<close> spreads through every operation.
\<close>

datatype dbl = Fin real | PInf | NInf | NaN

fun is_neg :: "dbl \<Rightarrow> bool" where
  "is_neg (Fin x) = (x < 0)"
| "is_neg NInf = True"
| "is_neg PInf = False"
| "is_neg NaN = False"

fun dneg :: "dbl \<Rightarrow> dbl" where
  "dneg (Fin x) = Fin (- x)"
| "dneg PInf = NInf"
| "dneg NInf = PInf"
| "dneg NaN = NaN"

fun dadd :: "dbl \<Rightarrow> dbl \<Rightarrow> dbl" where
  "dadd (Fin x) (Fin y) = Fin (x + y)"
| "dadd NaN b = NaN"
| "dadd a NaN = NaN"
| "dadd PInf NInf = NaN"
| "dadd NInf PInf = NaN"
| "dadd PInf b = PInf"
| "dadd a PInf = PInf"
| "dadd NInf b = NInf"
| "dadd a NInf = NInf"

definition dsub :: "dbl \<Rightarrow> dbl \<Rightarrow> dbl" where
  "dsub a b = dadd a (dneg b)"

fun dmul :: "dbl \<Rightarrow> dbl \<Rightarrow> dbl" where
  "dmul (Fin x) (Fin y) = Fin (x * y)"
| "dmul NaN b = NaN"
| "dmul a NaN = NaN"
| "dmul a b =
     (if a = Fin 0 \<or> b = Fin 0 then NaN
      else if is_neg a \<noteq> is_neg b then NInf else PInf)"

fun ddiv :: "dbl \<Rightarrow> dbl \<Rightarrow> dbl" where
  "ddiv (Fin x) (Fin y) =
     (if y \<noteq> 0 then Fin (x / y)
      else if x = 0 then NaN
      else if x < 0 then NInf else PInf)"
| "ddiv NaN b = NaN"
| "ddiv a NaN = NaN"
| "ddiv (Fin x) b = Fin 0"
| "ddiv a (Fin y) = (if is_neg a \<noteq> (y < 0) then NInf else PInf)"
| "ddiv a b = NaN"

fun dsqrt :: "dbl \<Rightarrow> dbl" where
  "dsqrt (Fin x) = (if 0 \<le> x then Fin (sqrt x) else NaN)"
| "dsqrt PInf = PInf"
| "dsqrt NInf = NaN"
| "dsqrt NaN = NaN"

fun dless :: "dbl \<Rightarrow> dbl \<Rightarrow> bool" where
  "dless (Fin x) (Fin y) = (x < y)"
| "dless NaN b = False"
| "dless a NaN = False"
| "dless PInf b = False"
| "dless a PInf = True"
| "dless a NInf = False"
| "dless NInf b = True"

definition dle :: "dbl \<Rightarrow> dbl \<Rightarrow> bool" where
  "dle a b \<longleftrightarrow> a \<noteq> NaN \<and> b \<noteq> NaN \<and> (a = b \<or> dless a b)"

fun is_finite :: "dbl \<Rightarrow> bool" where
  "is_finite (Fin x) = True"
| "is_finite a = False"

text \<open>
  Modelled from the spec: \<^verbatim>\<open>Vec3\<close>, the rotation matrix and their operators come from
  the vector library, which is not part of this file; the spec takes them as the standard
  linear-algebra types. \<^verbatim>\<open>~a * b\<close> is the dot product, \<^verbatim>\<open>norm\<close> the square root of
  \<^verbatim>\<open>normSqr\<close>, and \<^verbatim>\<open>v / s\<close> divides each component.
\<close>

datatype vec3 = Vec3 dbl dbl dbl

datatype mat33 = Mat33 vec3 vec3 vec3

type_synonym transform_mat = "mat33 \<times> vec3"

type_synonym spatial_vec = "vec3 \<times> vec3"

fun vadd :: "vec3 \<Rightarrow> vec3 \<Rightarrow> vec3" where
  "vadd (Vec3 a b c) (Vec3 x y z) = Vec3 (dadd a x) (dadd b y) (dadd c z)"

fun vsub :: "vec3 \<Rightarrow> vec3 \<Rightarrow> vec3" where
  "vsub (Vec3 a b c) (Vec3 x y z) = Vec3 (dsub a x) (dsub b y) (dsub c z)"

fun vdot :: "vec3 \<Rightarrow> vec3 \<Rightarrow> dbl" where
  "vdot (Vec3 a b c) (Vec3 x y z) = dadd (dadd (dmul a x) (dmul b y)) (dmul c z)"

fun cross :: "vec3 \<Rightarrow> vec3 \<Rightarrow> vec3" where
  "cross (Vec3 a b c) (Vec3 x y z) =
     Vec3 (dsub (dmul b z) (dmul c y)) (dsub (dmul c x) (dmul a z)) (dsub (dmul a y) (dmul b x))"

definition normSqr :: "vec3 \<Rightarrow> dbl" where
  "normSqr v = vdot v v"

definition norm3 :: "vec3 \<Rightarrow> dbl" where
  "norm3 v = dsqrt (normSqr v)"

fun vdivs :: "vec3 \<Rightarrow> dbl \<Rightarrow> vec3" where
  "vdivs (Vec3 a b c) s = Vec3 (ddiv a s) (ddiv b s) (ddiv c s)"

fun vscale :: "dbl \<Rightarrow> vec3 \<Rightarrow> vec3" where
  "vscale s (Vec3 a b c) = Vec3 (dmul s a) (dmul s b) (dmul s c)"

fun mvmul :: "mat33 \<Rightarrow> vec3 \<Rightarrow> vec3" where
  "mvmul (Mat33 r0 r1 r2) v = Vec3 (vdot r0 v) (vdot r1 v) (vdot r2 v)"



definition zero3 :: vec3 where
  "zero3 = Vec3 (Fin 0) (Fin 0) (Fin 0)"

definition identity33 :: mat33 where
  "identity33 = Mat33 (Vec3 (Fin 1) (Fin 0) (Fin 0)) (Vec3 (Fin 0) (Fin 1) (Fin 0))
                      (Vec3 (Fin 0) (Fin 0) (Fin 1))"

section \<open>Nodes and the tree\<close>

text \<open>
  \<^verbatim>\<open>RigidBodyNode\<close> is declared in another file. A node is modelled by the values this
  file reads and writes through its accessors: level, node number, the links to parent
  and children, the two size counts, and the kinematic quantities the stations read.
  Nodes live in a heap of their own; the tree holds their addresses.
\<close>

record rb_node =
  level :: int
  nodeNum :: int
  parentPtr :: "addr option"
  children :: "(addr \<times> transform_mat) list"
  DOF :: int
  maxNQ :: int
  R_GB :: mat33
  OB_G :: vec3
  spatialAngVel :: vec3
  spatialLinVel :: vec3
  spatialAngAcc :: vec3
  spatialLinAcc :: vec3

record rb_station =
  rbNode :: "addr option"
  station_B :: vec3

record rb_station_runtime =
  station_G :: vec3
  pos_G :: vec3
  stationVel_G :: vec3
  vel_G :: vec3
  acc_G :: vec3

record rb_dc_runtime =
  stationRuntimes :: "rb_station_runtime \<times> rb_station_runtime"
  fromTip1ToTip2_G :: vec3
  unitDirection_G :: vec3
  relVel_G :: vec3
  posErr :: dbl
  velErr :: dbl
  accErr :: dbl

record rb_distance_constraint =
  distance :: dbl
  stations :: "rb_station \<times> rb_station"
  runtimeIndex :: int

text \<open>
  The bodies of the per-node operations (\<^verbatim>\<open>calcP\<close>, \<^verbatim>\<open>calcZ\<close>, \<^verbatim>\<open>calcAccel\<close>,
  \<^verbatim>\<open>calcInternalForce\<close>) are in another file. What the tree does is follow its
  pointer to the node and call them, in some order and with some argument: each call is
  recorded, in order, in \<open>calls\<close>.
\<close>

datatype node_call =
  CalcP addr
| CalcZ addr spatial_vec
| CalcAccel addr
| CalcInternalForce addr spatial_vec

record 'lc rb_world =
  nodeHeap :: "rb_node option list"
  rbNodeLevels :: "addr list list"
  nodeNum2NodeMap :: "(int \<times> int) list"
  DOFTotal :: int
  SqDOFTotal :: int
  maxNQTotal :: int
  lConstraints :: "'lc option"
  distanceConstraints :: "rb_distance_constraint list"
  dcRuntimeInfo :: "rb_dc_runtime list"
  calls :: "node_call list"

text \<open>
  The constraint solver \<^verbatim>\<open>LengthConstraints\<close> is an outside collaborator. Its state is
  the type parameter \<open>'lc\<close>, and the operations this file calls are parameters.
\<close>

record 'lc lc_ops =
  lc_create :: "dbl \<Rightarrow> int \<Rightarrow> 'lc"
  lc_construct :: "'lc \<Rightarrow> rb_distance_constraint list \<Rightarrow> rb_dc_runtime list \<Rightarrow> 'lc"
  lc_calcConstraintForces :: "'lc \<Rightarrow> rb_dc_runtime list \<Rightarrow> bool \<times> 'lc"
  lc_addInCorrectionForces :: "'lc \<Rightarrow> spatial_vec list \<Rightarrow> spatial_vec list"

subsection \<open>Construction\<close>

definition setLevel :: "addr \<Rightarrow> int \<Rightarrow> rb_node option list \<Rightarrow> error + rb_node option list" where
  "setLevel a l h =
     (case heap_read h a of
        Inl e \<Rightarrow> Inl e
      | Inr n \<Rightarrow> Inr (h[a := Some (n\<lparr>level := l\<rparr>)]))"

definition setNodeNum :: "addr \<Rightarrow> int \<Rightarrow> rb_node option list \<Rightarrow> error + rb_node option list" where
  "setNodeNum a k h =
     (case heap_read h a of
        Inl e \<Rightarrow> Inl e
      | Inr n \<Rightarrow> Inr (h[a := Some (n\<lparr>nodeNum := k\<rparr>)]))"

definition addChild ::
  "addr \<Rightarrow> addr \<Rightarrow> transform_mat \<Rightarrow> rb_node option list \<Rightarrow> error + rb_node option list" where
  \<comment> \<open>Modelled from the spec: \<^verbatim>\<open>RigidBodyNode::addChild\<close> is not in this file; it
      links the node as a child of the parent, in both directions.\<close>
  "addChild p c referenceConfig h =
     (case heap_read h p of
        Inl e \<Rightarrow> Inl e
      | Inr pn \<Rightarrow>
          (let h1 = h[p := Some (pn\<lparr>children := children pn @ [(c, referenceConfig)]\<rparr>)]
           in case heap_read h1 c of
                Inl e \<Rightarrow> Inl e
              | Inr cn \<Rightarrow> Inr (h1[c := Some (cn\<lparr>parentPtr := Some p\<rparr>)])))"

definition resize :: "'a list list \<Rightarrow> nat \<Rightarrow> 'a list list" where
  "resize xs k = take k xs @ replicate (k - length xs) []"

definition addRigidBodyNode ::
  "'lc rb_world \<Rightarrow> addr \<Rightarrow> transform_mat \<Rightarrow> addr option \<Rightarrow> error + ('lc rb_world \<times> int)" where
  \<comment> \<open>The result is the new tree and the returned node number. The caller's pointer
      \<open>nodep\<close> is set to null by the source; the tree keeps the address.\<close>
  "addRigidBodyNode w parent referenceConfig nodep =
     (case heap_read (nodeHeap w) parent of
        Inl e \<Rightarrow> Inl e
      | Inr p \<Rightarrow>
          (case nodep of
             None \<Rightarrow> Inl NullDereference
           | Some n \<Rightarrow>
               (let lvl = level p + 1
                in case setLevel n lvl (nodeHeap w) of
                     Inl e \<Rightarrow> Inl e
                   | Inr h1 \<Rightarrow>
                       (let levels1 = (if int (length (rbNodeLevels w)) \<le> lvl
                                       then resize (rbNodeLevels w) (nat (lvl + 1))
                                       else rbNodeLevels w)
                        in if lvl < 0 \<or> int (length levels1) \<le> lvl then Inl IndexOutOfRange
                           else
                             (let nxt = int (length (levels1 ! nat lvl));
                                  levels2 = levels1[nat lvl := levels1 ! nat lvl @ [n]];
                                  num = int (length (nodeNum2NodeMap w));
                                  map2 = nodeNum2NodeMap w @ [(lvl, nxt)]
                              in case setNodeNum n num h1 of
                                   Inl e \<Rightarrow> Inl e
                                 | Inr h2 \<Rightarrow>
                                     (case addChild parent n referenceConfig h2 of
                                        Inl e \<Rightarrow> Inl e
                                      | Inr h3 \<Rightarrow>
                                          Inr (w\<lparr>nodeHeap := h3, rbNodeLevels := levels2,
                                                  nodeNum2NodeMap := map2\<rparr>, num)))))))"

definition create_ground :: rb_node where
  \<comment> \<open>Modelled from the spec: \<^verbatim>\<open>RigidBodyNode::create\<close> is not in this file; for
      \<^verbatim>\<open>Joint::ThisIsGround\<close> it makes a node with no degrees of freedom at the identity
      configuration. Level and node number are set by \<^verbatim>\<open>addGroundNode\<close>.\<close>
  "create_ground =
     \<lparr>level = - 1, nodeNum = - 1, parentPtr = None, children = [], DOF = 0, maxNQ = 0,
      R_GB = identity33, OB_G = zero3, spatialAngVel = zero3, spatialLinVel = zero3,
      spatialAngAcc = zero3, spatialLinAcc = zero3\<rparr>"

definition addGroundNode :: "'lc rb_world \<Rightarrow> error + 'lc rb_world" where
  "addGroundNode w =
     (if length (nodeNum2NodeMap w) \<noteq> 0 then Inl AssertionFailed
      else if length (rbNodeLevels w) \<noteq> 0 then Inl AssertionFailed
      else
        (let (h, n) = heap_new (nodeHeap w) create_ground
         in case setLevel n 0 h of
              Inl e \<Rightarrow> Inl e
            | Inr h1 \<Rightarrow>
                (let levels1 = resize (rbNodeLevels w) 1;
                     levels2 = levels1[0 := levels1 ! 0 @ [n]];
                     map2 = nodeNum2NodeMap w @ [(0, 0)]
                 in case setNodeNum n 0 h1 of
                      Inl e \<Rightarrow> Inl e
                    | Inr h2 \<Rightarrow>
                        Inr (w\<lparr>nodeHeap := h2, rbNodeLevels := levels2,
                                nodeNum2NodeMap := map2\<rparr>))))"

subsection \<open>Topology finalization\<close>

fun sizes_inner :: "addr list \<Rightarrow> 'lc rb_world \<Rightarrow> error + 'lc rb_world" where
  "sizes_inner [] w = Inr w"
| "sizes_inner (a # as) w =
     (case heap_read (nodeHeap w) a of
        Inl e \<Rightarrow> Inl e
      | Inr n \<Rightarrow>
          (let ndof = DOF n
           in sizes_inner as
                (w\<lparr>DOFTotal := DOFTotal w + ndof, SqDOFTotal := SqDOFTotal w + ndof * ndof,
                   maxNQTotal := maxNQTotal w + maxNQ n\<rparr>)))"

fun sizes_outer :: "addr list list \<Rightarrow> 'lc rb_world \<Rightarrow> error + 'lc rb_world" where
  "sizes_outer [] w = Inr w"
| "sizes_outer (l # ls) w =
     (case sizes_inner l w of Inl e \<Rightarrow> Inl e | Inr w1 \<Rightarrow> sizes_outer ls w1)"

definition realizeConstruction ::
  "'lc lc_ops \<Rightarrow> dbl \<Rightarrow> int \<Rightarrow> 'lc rb_world \<Rightarrow> error + 'lc rb_world" where
  "realizeConstruction ops ctol verbose w =
     (case sizes_outer (rbNodeLevels w) (w\<lparr>DOFTotal := 0, SqDOFTotal := 0, maxNQTotal := 0\<rparr>) of
        Inl e \<Rightarrow> Inl e
      | Inr w1 \<Rightarrow>
          Inr (w1\<lparr>lConstraints :=
                    Some (lc_construct ops (lc_create ops ctol verbose)
                            (distanceConstraints w1) (dcRuntimeInfo w1))\<rparr>))"

subsection \<open>Sweeps over the levels\<close>

definition node_calcP :: "addr \<Rightarrow> 'lc rb_world \<Rightarrow> error + 'lc rb_world" where
  \<comment> \<open>\<^verbatim>\<open>rbNodeLevels[i][j]->calcP()\<close>: the pointer is followed, the call recorded.\<close>
  "node_calcP a w =
     (case heap_read (nodeHeap w) a of
        Inl e \<Rightarrow> Inl e
      | Inr n \<Rightarrow> Inr (w\<lparr>calls := calls w @ [CalcP a]\<rparr>))"

definition node_calcZ :: "addr \<Rightarrow> spatial_vec \<Rightarrow> 'lc rb_world \<Rightarrow> 'lc rb_world" where
  "node_calcZ a f w = w\<lparr>calls := calls w @ [CalcZ a f]\<rparr>"

definition node_calcAccel :: "addr \<Rightarrow> 'lc rb_world \<Rightarrow> error + 'lc rb_world" where
  "node_calcAccel a w =
     (case heap_read (nodeHeap w) a of
        Inl e \<Rightarrow> Inl e
      | Inr n \<Rightarrow> Inr (w\<lparr>calls := calls w @ [CalcAccel a]\<rparr>))"

definition node_calcInternalForce :: "addr \<Rightarrow> spatial_vec \<Rightarrow> 'lc rb_world \<Rightarrow> 'lc rb_world" where
  "node_calcInternalForce a f w = w\<lparr>calls := calls w @ [CalcInternalForce a f]\<rparr>"

definition force_at :: "'lc rb_world \<Rightarrow> spatial_vec list \<Rightarrow> addr \<Rightarrow> error + spatial_vec" where
  \<comment> \<open>\<^verbatim>\<open>spatialForces[node.getNodeNum()]\<close> for the node at an address.\<close>
  "force_at w spatialForces a =
     (case heap_read (nodeHeap w) a of
        Inl e \<Rightarrow> Inl e
      | Inr n \<Rightarrow>
          if 0 \<le> nodeNum n \<and> nodeNum n < int (length spatialForces)
          then Inr (spatialForces ! nat (nodeNum n))
          else Inl IndexOutOfRange)"

fun calcP_inner :: "addr list \<Rightarrow> 'lc rb_world \<Rightarrow> error + 'lc rb_world" where
  "calcP_inner [] w = Inr w"
| "calcP_inner (a # as) w =
     (case node_calcP a w of Inl e \<Rightarrow> Inl e | Inr w1 \<Rightarrow> calcP_inner as w1)"

fun calcP_outer :: "nat \<Rightarrow> 'lc rb_world \<Rightarrow> error + 'lc rb_world" where
  \<comment> \<open>\<open>calcP_outer k\<close> runs the outer loop from \<open>i = k - 1\<close> down to \<open>0\<close>.\<close>
  "calcP_outer 0 w = Inr w"
| "calcP_outer (Suc i) w =
     (case calcP_inner (rbNodeLevels w ! i) w of
        Inl e \<Rightarrow> Inl e
      | Inr w1 \<Rightarrow> calcP_outer i w1)"

definition calcP :: "'lc rb_world \<Rightarrow> error + 'lc rb_world" where
  "calcP w = calcP_outer (length (rbNodeLevels w)) w"

definition prepareForDynamics :: "'lc rb_world \<Rightarrow> error + 'lc rb_world" where
  "prepareForDynamics w = calcP w"

fun calcZ_inner :: "spatial_vec list \<Rightarrow> addr list \<Rightarrow> 'lc rb_world \<Rightarrow> error + 'lc rb_world" where
  "calcZ_inner spatialForces [] w = Inr w"
| "calcZ_inner spatialForces (a # as) w =
     (case force_at w spatialForces a of
        Inl e \<Rightarrow> Inl e
      | Inr f \<Rightarrow> calcZ_inner spatialForces as (node_calcZ a f w))"

fun calcZ_outer :: "spatial_vec list \<Rightarrow> nat \<Rightarrow> 'lc rb_world \<Rightarrow> error + 'lc rb_world" where
  "calcZ_outer spatialForces 0 w = Inr w"
| "calcZ_outer spatialForces (Suc i) w =
     (case calcZ_inner spatialForces (rbNodeLevels w ! i) w of
        Inl e \<Rightarrow> Inl e
      | Inr w1 \<Rightarrow> calcZ_outer spatialForces i w1)"

definition calcZ :: "spatial_vec list \<Rightarrow> 'lc rb_world \<Rightarrow> error + 'lc rb_world" where
  "calcZ spatialForces w = calcZ_outer spatialForces (length (rbNodeLevels w)) w"

fun calcInternalForce_inner ::
  "spatial_vec list \<Rightarrow> addr list \<Rightarrow> 'lc rb_world \<Rightarrow> error + 'lc rb_world" where
  "calcInternalForce_inner spatialForces [] w = Inr w"
| "calcInternalForce_inner spatialForces (a # as) w =
     (case force_at w spatialForces a of
        Inl e \<Rightarrow> Inl e
      | Inr f \<Rightarrow> calcInternalForce_inner spatialForces as (node_calcInternalForce a f w))"

fun calcInternalForce_outer ::
  "spatial_vec list \<Rightarrow> nat \<Rightarrow> 'lc rb_world \<Rightarrow> error + 'lc rb_world" where
  "calcInternalForce_outer spatialForces 0 w = Inr w"
| "calcInternalForce_outer spatialForces (Suc i) w =
     (case calcInternalForce_inner spatialForces (rbNodeLevels w ! i) w of
        Inl e \<Rightarrow> Inl e
      | Inr w1 \<Rightarrow> calcInternalForce_outer spatialForces i w1)"

definition calcTreeInternalForces :: "spatial_vec list \<Rightarrow> 'lc rb_world \<Rightarrow> error + 'lc rb_world" where
  "calcTreeInternalForces spatialForces w =
     calcInternalForce_outer spatialForces (length (rbNodeLevels w)) w"

fun calcAccel_inner :: "addr list \<Rightarrow> 'lc rb_world \<Rightarrow> error + 'lc rb_world" where
  "calcAccel_inner [] w = Inr w"
| "calcAccel_inner (a # as) w =
     (case node_calcAccel a w of Inl e \<Rightarrow> Inl e | Inr w1 \<Rightarrow> calcAccel_inner as w1)"

fun calcAccel_outer :: "addr list list \<Rightarrow> 'lc rb_world \<Rightarrow> error + 'lc rb_world" where
  "calcAccel_outer [] w = Inr w"
| "calcAccel_outer (l # ls) w =
     (case calcAccel_inner l w of Inl e \<Rightarrow> Inl e | Inr w1 \<Rightarrow> calcAccel_outer ls w1)"

definition calcTreeAccel :: "'lc rb_world \<Rightarrow> error + 'lc rb_world" where
  "calcTreeAccel w = calcAccel_outer (rbNodeLevels w) w"

section \<open>Stations and distance constraints\<close>

definition getNode :: "rb_node option list \<Rightarrow> rb_station \<Rightarrow> error + rb_node" where
  \<comment> \<open>\<^verbatim>\<open>getNode()\<close> dereferences the station's node pointer.\<close>
  "getNode h s =
     (case rbNode s of None \<Rightarrow> Inl NullDereference | Some a \<Rightarrow> heap_read h a)"

definition station_calcPosInfo ::
  "rb_node option list \<Rightarrow> rb_station \<Rightarrow> rb_station_runtime \<Rightarrow> error + rb_station_runtime" where
  "station_calcPosInfo h s rt =
     (case getNode h s of
        Inl e \<Rightarrow> Inl e
      | Inr n \<Rightarrow>
          (let rt1 = rt\<lparr>station_G := mvmul (R_GB n) (station_B s)\<rparr>
           in Inr (rt1\<lparr>pos_G := vadd (OB_G n) (station_G rt1)\<rparr>)))"

definition station_calcVelInfo ::
  "rb_node option list \<Rightarrow> rb_station \<Rightarrow> rb_station_runtime \<Rightarrow> error + rb_station_runtime" where
  "station_calcVelInfo h s rt =
     (case getNode h s of
        Inl e \<Rightarrow> Inl e
      | Inr n \<Rightarrow>
          (let w_G = spatialAngVel n;
               v_G = spatialLinVel n;
               rt1 = rt\<lparr>stationVel_G := cross w_G (station_G rt)\<rparr>
           in Inr (rt1\<lparr>vel_G := vadd v_G (stationVel_G rt1)\<rparr>)))"

definition station_calcAccInfo ::
  "rb_node option list \<Rightarrow> rb_station \<Rightarrow> rb_station_runtime \<Rightarrow> error + rb_station_runtime" where
  "station_calcAccInfo h s rt =
     (case getNode h s of
        Inl e \<Rightarrow> Inl e
      | Inr n \<Rightarrow>
          (let w_G = spatialAngVel n;
               aa_G = spatialAngAcc n;
               a_G = spatialLinAcc n
           in Inr (rt\<lparr>acc_G := vadd (vadd a_G (cross aa_G (station_G rt)))
                                     (cross w_G (stationVel_G rt))\<rparr>)))"

definition isValid :: "rb_distance_constraint \<Rightarrow> bool" where
  \<comment> \<open>Modelled from the spec: \<^verbatim>\<open>isValid\<close> is declared in the header, which is not part
      of this file; a constraint's stations must reference nodes, and its distance must
      be non-negative.\<close>
  "isValid dc \<longleftrightarrow>
     rbNode (fst (stations dc)) \<noteq> None \<and> rbNode (snd (stations dc)) \<noteq> None \<and>
     dle (Fin 0) (distance dc)"

definition calcPosInfo ::
  "rb_node option list \<Rightarrow> rb_distance_constraint \<Rightarrow> rb_dc_runtime \<Rightarrow> error + rb_dc_runtime" where
  "calcPosInfo h dc rt =
     (if \<not> (isValid dc \<and> 0 \<le> runtimeIndex dc) then Inl AssertionFailed
      else
        (case station_calcPosInfo h (fst (stations dc)) (fst (stationRuntimes rt)) of
           Inl e \<Rightarrow> Inl e
         | Inr r0 \<Rightarrow>
             (case station_calcPosInfo h (snd (stations dc)) (snd (stationRuntimes rt)) of
                Inl e \<Rightarrow> Inl e
              | Inr r1 \<Rightarrow>
                  (let rt1 = rt\<lparr>stationRuntimes := (r0, r1)\<rparr>;
                       rt2 = rt1\<lparr>fromTip1ToTip2_G := vsub (pos_G r1) (pos_G r0)\<rparr>;
                       separation = norm3 (fromTip1ToTip2_G rt2);
                       rt3 = rt2\<lparr>unitDirection_G := vdivs (fromTip1ToTip2_G rt2) separation\<rparr>
                   in Inr (rt3\<lparr>posErr := dsub (distance dc) separation\<rparr>)))))"

definition calcVelInfo ::
  "rb_node option list \<Rightarrow> rb_distance_constraint \<Rightarrow> rb_dc_runtime \<Rightarrow> error + rb_dc_runtime" where
  "calcVelInfo h dc rt =
     (if \<not> (isValid dc \<and> 0 \<le> runtimeIndex dc) then Inl AssertionFailed
      else
        (case station_calcVelInfo h (fst (stations dc)) (fst (stationRuntimes rt)) of
           Inl e \<Rightarrow> Inl e
         | Inr r0 \<Rightarrow>
             (case station_calcVelInfo h (snd (stations dc)) (snd (stationRuntimes rt)) of
                Inl e \<Rightarrow> Inl e
              | Inr r1 \<Rightarrow>
                  (let rt1 = rt\<lparr>stationRuntimes := (r0, r1)\<rparr>;
                       rt2 = rt1\<lparr>relVel_G := vsub (vel_G r1) (vel_G r0)\<rparr>
                   in Inr (rt2\<lparr>velErr := vdot (unitDirection_G rt2) (relVel_G rt2)\<rparr>)))))"

definition calcAccInfo ::
  "rb_node option list \<Rightarrow> rb_distance_constraint \<Rightarrow> rb_dc_runtime \<Rightarrow> error + rb_dc_runtime" where
  "calcAccInfo h dc rt =
     (if \<not> (isValid dc \<and> 0 \<le> runtimeIndex dc) then Inl AssertionFailed
      else
        (case station_calcAccInfo h (fst (stations dc)) (fst (stationRuntimes rt)) of
           Inl e \<Rightarrow> Inl e
         | Inr r0 \<Rightarrow>
             (case station_calcAccInfo h (snd (stations dc)) (snd (stationRuntimes rt)) of
                Inl e \<Rightarrow> Inl e
              | Inr r1 \<Rightarrow>
                  (let rt1 = rt\<lparr>stationRuntimes := (r0, r1)\<rparr>;
                       relAcc_G = vsub (acc_G r1) (acc_G r0)
                   in Inr (rt1\<lparr>accErr := dadd (normSqr (relVel_G rt1))
                                              (vdot relAcc_G (fromTip1ToTip2_G rt1))\<rparr>)))))"

definition addDistanceConstraint ::
  "rb_dc_runtime \<Rightarrow> 'lc rb_world \<Rightarrow> rb_station \<Rightarrow> rb_station \<Rightarrow> dbl \<Rightarrow> 'lc rb_world \<times> int" where
  \<comment> \<open>The first argument is the value of a default-constructed
      \<^verbatim>\<open>RBDistanceConstraintRuntime\<close>, whose constructor is in the header.\<close>
  "addDistanceConstraint fresh_runtime w s1 s2 d =
     (let dc = \<lparr>distance = d, stations = (s1, s2),
                 runtimeIndex = int (length (dcRuntimeInfo w))\<rparr>;
          w1 = w\<lparr>dcRuntimeInfo := dcRuntimeInfo w @ [fresh_runtime]\<rparr>;
          w2 = w1\<lparr>distanceConstraints := distanceConstraints w1 @ [dc]\<rparr>
      in (w2, int (length (distanceConstraints w2)) - 1))"

subsection \<open>Forward dynamics\<close>

fun accInfo_loop :: "rb_distance_constraint list \<Rightarrow> 'lc rb_world \<Rightarrow> error + 'lc rb_world" where
  \<comment> \<open>The loop over \<open>distanceConstraints\<close> at the end of \<^verbatim>\<open>calcTreeForwardDynamics\<close>.\<close>
  "accInfo_loop [] w = Inr w"
| "accInfo_loop (dc # dcs) w =
     (if runtimeIndex dc < 0 \<or> int (length (dcRuntimeInfo w)) \<le> runtimeIndex dc
      then Inl IndexOutOfRange
      else
        (case calcAccInfo (nodeHeap w) dc (dcRuntimeInfo w ! nat (runtimeIndex dc)) of
           Inl e \<Rightarrow> Inl e
         | Inr rt \<Rightarrow>
             accInfo_loop dcs
               (w\<lparr>dcRuntimeInfo := (dcRuntimeInfo w)[nat (runtimeIndex dc) := rt]\<rparr>)))"

definition calcTreeForwardDynamics :: "spatial_vec list \<Rightarrow> 'lc rb_world \<Rightarrow> error + 'lc rb_world" where
  "calcTreeForwardDynamics spatialForces w =
     (case calcZ spatialForces w of
        Inl e \<Rightarrow> Inl e
      | Inr w1 \<Rightarrow>
          (case calcTreeAccel w1 of
             Inl e \<Rightarrow> Inl e
           | Inr w2 \<Rightarrow> accInfo_loop (distanceConstraints w2) w2))"

text \<open>
  The two force lists of \<^verbatim>\<open>calcLoopForwardDynamics\<close>: the caller's list, which the
  function receives by reference, and the local copy \<open>sFrc\<close>.
\<close>

record force_frame =
  spatialForces_arg :: "spatial_vec list"
  sFrc :: "spatial_vec list"

definition calcLoopForwardDynamics ::
  "'lc lc_ops \<Rightarrow> spatial_vec list \<Rightarrow> 'lc rb_world \<Rightarrow> error + ('lc rb_world \<times> force_frame)" where
  "calcLoopForwardDynamics ops spatialForces w =
     (let fr = \<lparr>spatialForces_arg = spatialForces, sFrc = spatialForces\<rparr>
      in case calcTreeForwardDynamics (sFrc fr) w of
           Inl e \<Rightarrow> Inl e
         | Inr w1 \<Rightarrow>
             (case lConstraints w1 of
                None \<Rightarrow> Inl NullDereference
              | Some lc \<Rightarrow>
                  (let (needed, lc1) = lc_calcConstraintForces ops lc (dcRuntimeInfo w1);
                       w2 = w1\<lparr>lConstraints := Some lc1\<rparr>
                   in if needed
                      then
                        (let fr1 = fr\<lparr>sFrc := lc_addInCorrectionForces ops lc1 (sFrc fr)\<rparr>
                         in case calcTreeForwardDynamics (sFrc fr1) w2 of
                              Inl e \<Rightarrow> Inl e
                            | Inr w3 \<Rightarrow> Inr (w3, fr1))
                      else Inr (w2, fr))))"

section \<open>Invariants of the forest\<close>

text \<open>
  The data model's invariants, as executable predicates: each node stored at level \<open>i\<close>
  exists and has level \<open>i\<close>, and no level holds a node twice; the node numbers of the
  nodes of the tree are \<open>0\<close>, \ldots, \<open>n - 1\<close>, each once, \<open>n\<close> being the length of
  \<open>nodeNum2NodeMap\<close>; a node without parent has level \<open>0\<close>, and any other node has its
  parent in the tree, one level below; level 0 holds the ground node alone, with node
  number \<open>0\<close>.
\<close>

definition tree_nodes :: "'lc rb_world \<Rightarrow> addr list" where
  "tree_nodes w = concat (rbNodeLevels w)"

definition node_of :: "'lc rb_world \<Rightarrow> addr \<Rightarrow> rb_node option" where
  "node_of w a = (if a < length (nodeHeap w) then nodeHeap w ! a else None)"

definition level_of :: "'lc rb_world \<Rightarrow> addr \<Rightarrow> int" where
  "level_of w a = (case node_of w a of None \<Rightarrow> - 1 | Some n \<Rightarrow> level n)"

definition num_of :: "'lc rb_world \<Rightarrow> addr \<Rightarrow> int" where
  "num_of w a = (case node_of w a of None \<Rightarrow> - 1 | Some n \<Rightarrow> nodeNum n)"

definition getNBodies :: "'lc rb_world \<Rightarrow> nat" where
  "getNBodies w = length (nodeNum2NodeMap w)"

definition levels_ok :: "'lc rb_world \<Rightarrow> bool" where
  "levels_ok w \<longleftrightarrow>
     (\<forall>i \<in> {0..<length (rbNodeLevels w)}.
        distinct (rbNodeLevels w ! i) \<and>
        (\<forall>a \<in> set (rbNodeLevels w ! i). node_of w a \<noteq> None \<and> level_of w a = int i))"

definition nums_ok :: "'lc rb_world \<Rightarrow> bool" where
  "nums_ok w \<longleftrightarrow>
     distinct (map (num_of w) (tree_nodes w)) \<and>
     set (map (num_of w) (tree_nodes w)) = int ` {0..<getNBodies w}"

definition links_ok :: "'lc rb_world \<Rightarrow> bool" where
  "links_ok w \<longleftrightarrow>
     (\<forall>a \<in> set (tree_nodes w).
        case node_of w a of
          None \<Rightarrow> False
        | Some n \<Rightarrow>
            (case parentPtr n of
               None \<Rightarrow> level n = 0
             | Some p \<Rightarrow> p \<in> set (tree_nodes w) \<and> level n = level_of w p + 1))"

definition ground_of :: "'lc rb_world \<Rightarrow> addr option" where
  \<comment> \<open>The first node of level 0, if there is one.\<close>
  "ground_of w = (case rbNodeLevels w of [] \<Rightarrow> None | l # ls \<Rightarrow> (case l of [] \<Rightarrow> None | g # gs \<Rightarrow> Some g))"

definition ground_ok :: "'lc rb_world \<Rightarrow> bool" where
  \<comment> \<open>Level 0, when it exists, holds the ground node alone, and its node number is 0.\<close>
  "ground_ok w \<longleftrightarrow>
     (case rbNodeLevels w of
        [] \<Rightarrow> True
      | l # ls \<Rightarrow> (case l of [] \<Rightarrow> False | g # gs \<Rightarrow> gs = [] \<and> num_of w g = 0))"

definition tree_inv :: "'lc rb_world \<Rightarrow> bool" where
  "tree_inv w \<longleftrightarrow> levels_ok w \<and> nums_ok w \<and> links_ok w \<and> ground_ok w"

definition is_child_of :: "'lc rb_world \<Rightarrow> addr \<Rightarrow> addr \<Rightarrow> bool" where
  "is_child_of w c p \<longleftrightarrow>
     (case node_of w c of None \<Rightarrow> False | Some n \<Rightarrow> parentPtr n = Some p)"

definition strictly_before :: "'a list \<Rightarrow> 'a \<Rightarrow> 'a \<Rightarrow> bool" where
  \<comment> \<open>Both occur in the list, and every occurrence of \<open>x\<close> is before every one of \<open>y\<close>.\<close>
  "strictly_before xs x y \<longleftrightarrow>
     x \<in> set xs \<and> y \<in> set xs \<and> x \<notin> set (dropWhile (\<lambda>z. z \<noteq> y) xs)"

definition calls_made :: "'lc rb_world \<Rightarrow> 'lc rb_world \<Rightarrow> node_call list" where
  \<comment> \<open>The node calls recorded on the way from \<open>w\<close> to \<open>w'\<close>.\<close>
  "calls_made w w' = drop (length (calls w)) (calls w')"

definition tip_to_base :: "'lc rb_world \<Rightarrow> addr list" where
  \<comment> \<open>The nodes of the tree by descending level, each level in stored order.\<close>
  "tip_to_base w = concat (rev (rbNodeLevels w))"

definition slot_of :: "'lc rb_world \<Rightarrow> spatial_vec list \<Rightarrow> addr \<Rightarrow> spatial_vec" where
  \<comment> \<open>The entry of the force list at the node number of the node at an address.\<close>
  "slot_of w spatialForces a = spatialForces ! nat (num_of w a)"

definition dc_ready :: "rb_node option list \<Rightarrow> nat \<Rightarrow> rb_distance_constraint \<Rightarrow> bool" where
  \<comment> \<open>A constraint that passes its assertion, whose stations sit on live nodes and whose
      runtime index is a position of a runtime list of the given length.\<close>
  "dc_ready h k dc \<longleftrightarrow>
     isValid dc \<and> 0 \<le> runtimeIndex dc \<and> runtimeIndex dc < int k \<and>
     (case rbNode (fst (stations dc)) of None \<Rightarrow> False | Some a \<Rightarrow> live h a) \<and>
     (case rbNode (snd (stations dc)) of None \<Rightarrow> False | Some a \<Rightarrow> live h a)"

definition constraints_ready :: "'lc rb_world \<Rightarrow> bool" where
  "constraints_ready w \<longleftrightarrow>
     (\<forall>dc \<in> set (distanceConstraints w). dc_ready (nodeHeap w) (length (dcRuntimeInfo w)) dc)"

definition tfd_calls :: "'lc rb_world \<Rightarrow> spatial_vec list \<Rightarrow> node_call list" where
  \<comment> \<open>The node calls of one run of \<^verbatim>\<open>calcTreeForwardDynamics\<close> with a force list:
      \<^verbatim>\<open>calcZ\<close> from tip to base, then \<^verbatim>\<open>calcAccel\<close> from base to tip.\<close>
  "tfd_calls w spatialForces =
     map (\<lambda>a. CalcZ a (slot_of w spatialForces a)) (tip_to_base w) @
     map CalcAccel (tree_nodes w)"

section \<open>Station kinematics, as the spec words them\<close>

text \<open>
  The quantities the claims about distance constraints speak of, written from the spec's
  section on stations: the world position of a station is the node's world transform
  applied to the local offset; its velocity is the node's linear velocity plus angular
  velocity cross world offset; its acceleration is the node's linear acceleration plus
  angular acceleration cross world offset plus angular velocity cross the velocity's
  cross term. The Euclidean separation of two points is a real number.
\<close>

definition station_offset :: "rb_node \<Rightarrow> rb_station \<Rightarrow> vec3" where
  "station_offset n s = mvmul (R_GB n) (station_B s)"

definition station_world :: "rb_node \<Rightarrow> rb_station \<Rightarrow> vec3" where
  "station_world n s = vadd (OB_G n) (station_offset n s)"

definition station_velocity :: "rb_node \<Rightarrow> rb_station \<Rightarrow> vec3" where
  "station_velocity n s = vadd (spatialLinVel n) (cross (spatialAngVel n) (station_offset n s))"

definition station_acceleration :: "rb_node \<Rightarrow> rb_station \<Rightarrow> vec3" where
  "station_acceleration n s =
     vadd (vadd (spatialLinAcc n) (cross (spatialAngAcc n) (station_offset n s)))
          (cross (spatialAngVel n) (cross (spatialAngVel n) (station_offset n s)))"

fun real_of :: "dbl \<Rightarrow> real" where
  "real_of (Fin x) = x"
| "real_of a = 0"

fun separation :: "vec3 \<Rightarrow> vec3 \<Rightarrow> real" where
  "separation (Vec3 a b c) (Vec3 x y z) =
     sqrt ((real_of x - real_of a)\<^sup>2 + (real_of y - real_of b)\<^sup>2 + (real_of z - real_of c)\<^sup>2)"


definition sign_agrees :: "dbl \<Rightarrow> dbl \<Rightarrow> bool" where
  \<comment> \<open>A value that is negative, or positive, only if the other one is.\<close>
  "sign_agrees q x \<longleftrightarrow>
     (dless q (Fin 0) \<longrightarrow> dless x (Fin 0)) \<and> (dless (Fin 0) q \<longrightarrow> dless (Fin 0) x)"

fun along :: "vec3 \<Rightarrow> vec3 \<Rightarrow> bool" where
  \<comment> \<open>No component of the first vector has the sign opposite to the second vector's.\<close>
  "along (Vec3 a b c) (Vec3 x y z) \<longleftrightarrow> sign_agrees a x \<and> sign_agrees b y \<and> sign_agrees c z"

section \<open>Example inputs\<close>

definition example_memory :: "(nat, nat) sb_memory" where
  \<comment> \<open>Three state objects: one with variables only, one with both parts, one with none.\<close>
  "example_memory =
     \<lparr>sbStates = (\<lambda>x. None)(0 \<mapsto> \<lparr>vars = Some 0, cache = None\<rparr>,
                              1 \<mapsto> \<lparr>vars = Some 1, cache = Some 0\<rparr>,
                              2 \<mapsto> null_state),
      varsHeap = [Some 7, Some 8],
      cacheHeap = [Some 3]\<rparr>"

definition example_ref :: transform_mat where
  "example_ref = (identity33, Vec3 (Fin 1) (Fin 0) (Fin 0))"

definition example_body :: rb_node where
  \<comment> \<open>A body with one degree of freedom, created but not yet put in a tree.\<close>
  "example_body = create_ground\<lparr>DOF := 1, maxNQ := 1\<rparr>"

definition example_other :: rb_node where
  \<comment> \<open>A body that belongs to some other tree, where it is at level 1.\<close>
  "example_other = example_body\<lparr>level := 1, nodeNum := 1\<rparr>"

definition example_start :: "nat rb_world" where
  \<comment> \<open>An empty tree, and five bodies made by the caller at the addresses 0 to 4;
      the one at address 3 is part of another tree.\<close>
  "example_start =
     \<lparr>nodeHeap = [Some example_body, Some example_body, Some example_body,
                  Some example_other, Some example_body],
      rbNodeLevels = [], nodeNum2NodeMap = [],
      DOFTotal = 0, SqDOFTotal = 0, maxNQTotal = 0,
      lConstraints = None, distanceConstraints = [], dcRuntimeInfo = [], calls = []\<rparr>"

definition example_tree :: "nat rb_world" where
  \<comment> \<open>Ground (address 5) with the children 0 and 1; node 2 is a child of node 0.
      The bodies at 3 and 4 are not part of the tree.\<close>
  "example_tree =
     \<lparr>nodeHeap =
        [Some (example_body\<lparr>level := 1, nodeNum := 1, parentPtr := Some 5,
                              children := [(2, example_ref)]\<rparr>),
         Some (example_body\<lparr>level := 1, nodeNum := 2, parentPtr := Some 5\<rparr>),
         Some (example_body\<lparr>level := 2, nodeNum := 3, parentPtr := Some 0\<rparr>),
         Some example_other, Some example_body,
         Some (create_ground\<lparr>level := 0, nodeNum := 0,
                               children := [(0, example_ref), (1, example_ref)]\<rparr>)],
      rbNodeLevels = [[5], [0, 1], [2]],
      nodeNum2NodeMap = [(0, 0), (1, 0), (1, 1), (2, 0)],
      DOFTotal = 0, SqDOFTotal = 0, maxNQTotal = 0,
      lConstraints = None, distanceConstraints = [], dcRuntimeInfo = [], calls = []\<rparr>"

definition example_construction :: "error + nat rb_world" where
  \<comment> \<open>The calls that build \<open>example_tree\<close> from \<open>example_start\<close>.\<close>
  "example_construction =
     (case addGroundNode example_start of
        Inl e \<Rightarrow> Inl e
      | Inr g \<Rightarrow>
          (case addRigidBodyNode g 5 example_ref (Some 0) of
             Inl e \<Rightarrow> Inl e
           | Inr (t1, k1) \<Rightarrow>
               (case addRigidBodyNode t1 5 example_ref (Some 1) of
                  Inl e \<Rightarrow> Inl e
                | Inr (t2, k2) \<Rightarrow>
                    (case addRigidBodyNode t2 0 example_ref (Some 2) of
                       Inl e \<Rightarrow> Inl e
                     | Inr (t3, k3) \<Rightarrow> Inr t3))))"

definition example_ops :: "nat lc_ops" where
  \<comment> \<open>A solver that counts its calls of \<^verbatim>\<open>calcConstraintForces\<close>, asks for a correction
      on the first call only, and corrects by replacing every force by the zero force.\<close>
  "example_ops =
     \<lparr>lc_create = (\<lambda>ctol verbose. 0),
      lc_construct = (\<lambda>lc dcs rts. lc),
      lc_calcConstraintForces = (\<lambda>lc rts. (lc = 0, Suc lc)),
      lc_addInCorrectionForces = (\<lambda>lc fs. map (\<lambda>f. (zero3, zero3)) fs)\<rparr>"

definition example_station_runtime :: rb_station_runtime where
  "example_station_runtime =
     \<lparr>station_G = zero3, pos_G = zero3, stationVel_G = zero3, vel_G = zero3, acc_G = zero3\<rparr>"

definition example_runtime :: rb_dc_runtime where
  "example_runtime =
     \<lparr>stationRuntimes = (example_station_runtime, example_station_runtime),
      fromTip1ToTip2_G = zero3, unitDirection_G = zero3, relVel_G = zero3,
      posErr = Fin 0, velErr = Fin 0, accErr = Fin 0\<rparr>"

definition example_constrained :: "nat rb_world" where
  \<comment> \<open>\<open>example_tree\<close> with a distance constraint between the origins of the bodies at
      the addresses 1 and 2.\<close>
  "example_constrained =
     fst (addDistanceConstraint example_runtime example_tree
            \<lparr>rbNode = Some 1, station_B = zero3\<rparr> \<lparr>rbNode = Some 2, station_B = zero3\<rparr> (Fin 2))"

definition example_realized :: "nat rb_world" where
  \<comment> \<open>What \<^verbatim>\<open>realizeConstruction\<close> with \<open>example_ops\<close> makes of \<open>example_constrained\<close>.\<close>
  "example_realized =
     example_constrained\<lparr>DOFTotal := 3, SqDOFTotal := 3, maxNQTotal := 3, lConstraints := Some 0\<rparr>"


definition example_same_point :: rb_distance_constraint where
  \<comment> \<open>A constraint of distance 1 whose two stations are the same point of the body at 2.\<close>
  "example_same_point =
     \<lparr>distance = Fin 1,
      stations = (\<lparr>rbNode = Some 2, station_B = Vec3 (Fin 1) (Fin 2) (Fin 3)\<rparr>,
                  \<lparr>rbNode = Some 2, station_B = Vec3 (Fin 1) (Fin 2) (Fin 3)\<rparr>),
      runtimeIndex = 0\<rparr>"

definition example_apart :: rb_distance_constraint where
  \<comment> \<open>A constraint of distance 2 between the origin of the body at 0 and the point
      \<open>(3, 0, 4)\<close> of the body at 1.\<close>
  "example_apart =
     \<lparr>distance = Fin 2,
      stations = (\<lparr>rbNode = Some 0, station_B = zero3\<rparr>,
                  \<lparr>rbNode = Some 1, station_B = Vec3 (Fin 3) (Fin 0) (Fin 4)\<rparr>),
      runtimeIndex = 0\<rparr>"

definition example_moving :: "rb_node option list" where
  \<comment> \<open>Two bodies: one at rest at the origin, one at \<open>(3, 0, 4)\<close> moving along \<open>x\<close>
      with unit speed and unit acceleration.\<close>
  "example_moving =
     [Some example_body,
      Some (example_body\<lparr>OB_G := Vec3 (Fin 3) (Fin 0) (Fin 4),
                          spatialLinVel := Vec3 (Fin 1) (Fin 0) (Fin 0),
                          spatialLinAcc := Vec3 (Fin 1) (Fin 0) (Fin 0)\<rparr>)]"

definition example_link :: rb_distance_constraint where
  \<comment> \<open>A constraint of distance 5 between the origins of the two bodies of \<open>example_moving\<close>.\<close>
  "example_link =
     \<lparr>distance = Fin 5,
      stations = (\<lparr>rbNode = Some 0, station_B = zero3\<rparr>, \<lparr>rbNode = Some 1, station_B = zero3\<rparr>),
      runtimeIndex = 0\<rparr>"

definition example_force :: "real \<Rightarrow> spatial_vec" where
  "example_force x = (zero3, Vec3 (Fin x) (Fin 0) (Fin 0))"

definition example_forces :: "spatial_vec list" where
  "example_forces = [example_force 0, example_force 1, example_force 2, example_force 3]"

section \<open>Properties of the state container\<close>

text \<open>
  C9. Assigning a state container to itself returns the memory as it was: the branch
  taken when \<^verbatim>\<open>&src == this\<close> deletes nothing and allocates nothing, so both
  sub-objects stay as they are.
\<close>

theorem C9_self_assignment_unchanged: "SBState_assign m this this = Inr m"
  by (simp add: SBState_assign_def)

lemma copy_constructor_deep:
  assumes "sbStates m src = Some s" "owns_live m s" "this \<noteq> src"
  shows "\<exists>m'. SBState_copy m this src = Inr m' \<and> deep_copy_of m m' this src"
  using assms
  apply (cases "vars s"; cases "cache s")
  by (auto simp: SBState_copy_def copy_vars_def copy_cache_def owns_live_def live_def
        heap_read_def heap_new_def deep_copy_of_def get_vars_def get_cache_def set_vars_def
        set_cache_def null_state_def nth_append Let_def
      split: option.splits)

lemma assignment_deep:
  assumes "sbStates m src = Some s" "owns_live m s" "this \<noteq> src"
    "sbStates m this = Some t" "owns_live m t" "unshared s t"
  shows "\<exists>m'. SBState_assign m this src = Inr m' \<and> deep_copy_of m m' this src"
  using assms
  apply (cases "vars s"; cases "cache s"; cases "vars t"; cases "cache t")
  by (auto simp: SBState_assign_def copy_vars_def copy_cache_def owns_live_def live_def
        heap_read_def heap_new_def heap_delete_def unshared_def deep_copy_of_def get_vars_def
        get_cache_def set_vars_def set_cache_def null_state_def nth_append nth_list_update
        Let_def
      split: option.splits)

text \<open>
  C5. Copying a state container whose pointers are null or live, by the copy constructor
  into a new object or by assignment to a different object that owns other sub-objects,
  succeeds and gives a deep copy: the source reads as before, the copy reads the same
  values, a part that is null in the source is null in the copy, and overwriting a part of
  the copy leaves both parts of the source as they were.
\<close>

theorem C5_copy_is_deep:
  assumes "sbStates m src = Some s" and "owns_live m s"
    and "this \<noteq> src" and "dst \<noteq> src"
  shows "(\<exists>m'. SBState_copy m this src = Inr m' \<and> deep_copy_of m m' this src) \<and>
         (\<forall>t. sbStates m dst = Some t \<and> owns_live m t \<and> unshared s t \<longrightarrow>
              (\<exists>m'. SBState_assign m dst src = Inr m' \<and> deep_copy_of m m' dst src))"
  using assms copy_constructor_deep [of m src s this] assignment_deep [of m src s dst]
  by blast

theorem C5_copy_is_deep_witness:
  "(\<exists>m'. SBState_copy example_memory 3 0 = Inr m' \<and> deep_copy_of example_memory m' 3 0) \<and>
   (\<exists>m'. SBState_assign example_memory 1 0 = Inr m' \<and> deep_copy_of example_memory m' 1 0)"
  using C5_copy_is_deep [of example_memory 0 "\<lparr>vars = Some 0, cache = None\<rparr>" 3 1]
  by (simp add: example_memory_def owns_live_def live_def unshared_def)

section \<open>The tip-to-base sweeps\<close>

text \<open>
  In a tree whose nodes are live, \<^verbatim>\<open>calcP\<close> and \<^verbatim>\<open>calcZ\<close> return and add to the
  record of calls one call per node, in the order of \<open>tip_to_base\<close>: the levels from the
  last to the first, each level as stored.
\<close>

lemma heap_read_live: "live h a \<Longrightarrow> \<exists>n. heap_read h a = Inr n"
  by (auto simp: live_def heap_read_def)

lemma calcP_inner_ok:
  "\<forall>a\<in>set as. live (nodeHeap w) a \<Longrightarrow>
   calcP_inner as w = Inr (w\<lparr>calls := calls w @ map CalcP as\<rparr>)"
proof (induction as arbitrary: w)
  case Nil
  then show ?case by simp
next
  case (Cons a as)
  then obtain n where "heap_read (nodeHeap w) a = Inr n"
    using heap_read_live [of "nodeHeap w" a] by auto
  with Cons show ?case by (simp add: node_calcP_def)
qed

lemma calcP_outer_ok:
  "k \<le> length (rbNodeLevels w) \<Longrightarrow>
   \<forall>a\<in>set (concat (take k (rbNodeLevels w))). live (nodeHeap w) a \<Longrightarrow>
   calcP_outer k w =
     Inr (w\<lparr>calls := calls w @ map CalcP (concat (rev (take k (rbNodeLevels w))))\<rparr>)"
proof (induction k arbitrary: w)
  case 0
  then show ?case by simp
next
  case (Suc k)
  have k: "k < length (rbNodeLevels w)" using Suc.prems(1) by simp
  have inner: "calcP_inner (rbNodeLevels w ! k) w =
      Inr (w\<lparr>calls := calls w @ map CalcP (rbNodeLevels w ! k)\<rparr>)"
    using Suc.prems(2) k by (intro calcP_inner_ok) (auto simp: take_Suc_conv_app_nth)
  have "calcP_outer k (w\<lparr>calls := calls w @ map CalcP (rbNodeLevels w ! k)\<rparr>) =
      Inr (w\<lparr>calls := (calls w @ map CalcP (rbNodeLevels w ! k)) @
             map CalcP (concat (rev (take k (rbNodeLevels w))))\<rparr>)"
    using Suc.IH [of "w\<lparr>calls := calls w @ map CalcP (rbNodeLevels w ! k)\<rparr>"]
      Suc.prems k by (auto simp: take_Suc_conv_app_nth)
  with inner k show ?case
    by (simp add: take_Suc_conv_app_nth)
qed

lemma strictly_before_map:
  assumes "inj f" "strictly_before xs x y"
  shows "strictly_before (map f xs) (f x) (f y)"
proof -
  have eq: "(\<lambda>z. z \<noteq> f y) \<circ> f = (\<lambda>z. z \<noteq> y)"
    using assms(1) by (auto simp: fun_eq_iff dest: injD)
  show ?thesis
    using assms by (auto simp: strictly_before_def dropWhile_map eq dest: injD)
qed

lemma sweep_order:
  assumes "j < i" "i < length ls" "n \<in> set (ls ! i)" "m \<in> set (ls ! j)"
    and n_high: "\<And>k. k < length ls \<Longrightarrow> n \<in> set (ls ! k) \<Longrightarrow> j < k"
    and m_low: "\<And>k. k < length ls \<Longrightarrow> m \<in> set (ls ! k) \<Longrightarrow> k \<le> j"
  shows "strictly_before (concat (rev ls)) n m"
proof -
  have j: "j < length ls" using assms(1,2) by simp
  define A where "A = concat (rev (drop (Suc j) ls))"
  define B where "B = concat (rev (take j ls))"
  have split: "concat (rev ls) = A @ ls ! j @ B"
    using id_take_nth_drop [OF j] by (metis A_def B_def append_Cons append_Nil concat.simps(2) concat_append rev.simps(2) rev_append)
  have mA: "m \<notin> set A"
  proof
    assume "m \<in> set A"
    then obtain l where "l \<in> set (drop (Suc j) ls)" "m \<in> set l"
      by (auto simp: A_def)
    then obtain q where "q < length (drop (Suc j) ls)" "drop (Suc j) ls ! q = l"
      by (meson in_set_conv_nth)
    with \<open>m \<in> set l\<close> have "q < length ls - Suc j" "m \<in> set (ls ! (Suc j + q))"
      by auto
    then have "Suc j + q \<le> j" using m_low [of "Suc j + q"] by linarith
    then show False by simp
  qed
  have nL: "n \<notin> set (ls ! j)" using n_high [OF j] by auto
  have nB: "n \<notin> set B"
  proof
    assume "n \<in> set B"
    then obtain l where "l \<in> set (take j ls)" "n \<in> set l"
      by (auto simp: B_def)
    then obtain k where "k < length (take j ls)" "take j ls ! k = l"
      by (meson in_set_conv_nth)
    with \<open>n \<in> set l\<close> have "k < j" "n \<in> set (ls ! k)"
      by auto
    with n_high [of k] j show False by simp
  qed
  have "dropWhile (\<lambda>z. z \<noteq> m) (concat (rev ls)) = dropWhile (\<lambda>z. z \<noteq> m) (ls ! j @ B)"
    unfolding split using mA by (intro dropWhile_append2) auto
  then have "set (dropWhile (\<lambda>z. z \<noteq> m) (concat (rev ls))) \<subseteq> set (ls ! j @ B)"
    by (metis set_dropWhileD subsetI)
  with nL nB have "n \<notin> set (dropWhile (\<lambda>z. z \<noteq> m) (concat (rev ls)))" by auto
  moreover have "n \<in> set (concat (rev ls))" "m \<in> set (concat (rev ls))"
    using assms(2-4) j by auto
  ultimately show ?thesis by (simp add: strictly_before_def)
qed

lemma force_at_calls [simp]: "force_at (w\<lparr>calls := c\<rparr>) f a = force_at w f a"
  by (simp add: force_at_def)

lemma calcZ_inner_ok:
  "\<forall>a\<in>set as. force_at w f a = Inr (g a) \<Longrightarrow>
   calcZ_inner f as w = Inr (w\<lparr>calls := calls w @ map (\<lambda>a. CalcZ a (g a)) as\<rparr>)"
  by (induction as arbitrary: w) (simp_all add: node_calcZ_def)

lemma calcZ_inner_Inr:
  "calcZ_inner f as w = Inr w1 \<Longrightarrow>
   w1 = w\<lparr>calls := calls w1\<rparr> \<and> (\<forall>a\<in>set as. \<not> isl (force_at w f a))"
proof (induction as arbitrary: w)
  case Nil
  then show ?case by simp
next
  case (Cons a as)
  then obtain x where x: "force_at w f a = Inr x"
    by (cases "force_at w f a") auto
  with Cons.prems have "calcZ_inner f as (node_calcZ a x w) = Inr w1" by simp
  from Cons.IH [OF this] x show ?case
    by (auto simp: node_calcZ_def)
qed

lemma calcZ_outer_ok:
  "k \<le> length (rbNodeLevels w) \<Longrightarrow>
   \<forall>a\<in>set (concat (take k (rbNodeLevels w))). force_at w f a = Inr (g a) \<Longrightarrow>
   calcZ_outer f k w =
     Inr (w\<lparr>calls := calls w @ map (\<lambda>a. CalcZ a (g a)) (concat (rev (take k (rbNodeLevels w))))\<rparr>)"
proof (induction k arbitrary: w)
  case 0
  then show ?case by simp
next
  case (Suc k)
  have k: "k < length (rbNodeLevels w)" using Suc.prems(1) by simp
  have inner: "calcZ_inner f (rbNodeLevels w ! k) w =
      Inr (w\<lparr>calls := calls w @ map (\<lambda>a. CalcZ a (g a)) (rbNodeLevels w ! k)\<rparr>)"
    using Suc.prems(2) k by (intro calcZ_inner_ok) (auto simp: take_Suc_conv_app_nth)
  have "calcZ_outer f k (w\<lparr>calls := calls w @ map (\<lambda>a. CalcZ a (g a)) (rbNodeLevels w ! k)\<rparr>) =
      Inr (w\<lparr>calls := (calls w @ map (\<lambda>a. CalcZ a (g a)) (rbNodeLevels w ! k)) @
             map (\<lambda>a. CalcZ a (g a)) (concat (rev (take k (rbNodeLevels w))))\<rparr>)"
    using Suc.IH [of "w\<lparr>calls := calls w @ map (\<lambda>a. CalcZ a (g a)) (rbNodeLevels w ! k)\<rparr>"]
      Suc.prems k by (auto simp: take_Suc_conv_app_nth)
  with inner k show ?case
    by (simp add: take_Suc_conv_app_nth)
qed

lemma calcZ_outer_Inr:
  "calcZ_outer f k w = Inr w1 \<Longrightarrow> k \<le> length (rbNodeLevels w) \<Longrightarrow>
   \<forall>a\<in>set (concat (take k (rbNodeLevels w))). \<not> isl (force_at w f a)"
proof (induction k arbitrary: w)
  case 0
  then show ?case by simp
next
  case (Suc k)
  have k: "k < length (rbNodeLevels w)" using Suc.prems(2) by simp
  from Suc.prems(1) obtain w0 where w0: "calcZ_inner f (rbNodeLevels w ! k) w = Inr w0"
    and rest: "calcZ_outer f k w0 = Inr w1"
    by (cases "calcZ_inner f (rbNodeLevels w ! k) w") auto
  from calcZ_inner_Inr [OF w0] have eq: "w0 = w\<lparr>calls := calls w0\<rparr>"
    and here: "\<forall>a\<in>set (rbNodeLevels w ! k). \<not> isl (force_at w f a)" by auto
  have lv: "rbNodeLevels w0 = rbNodeLevels w" by (subst eq) simp
  have fa: "\<And>a. force_at w0 f a = force_at w f a" by (subst eq) simp
  from Suc.IH [OF rest] k lv fa
  have "\<forall>a\<in>set (concat (take k (rbNodeLevels w))). \<not> isl (force_at w f a)" by simp
  with here k show ?case by (auto simp: take_Suc_conv_app_nth)
qed

lemma in_tree_nodes:
  "a \<in> set (tree_nodes w) \<longleftrightarrow> (\<exists>i<length (rbNodeLevels w). a \<in> set (rbNodeLevels w ! i))"
  unfolding tree_nodes_def set_concat by (metis UN_iff in_set_conv_nth)

lemma levels_ok_level:
  "levels_ok w \<Longrightarrow> i < length (rbNodeLevels w) \<Longrightarrow> a \<in> set (rbNodeLevels w ! i) \<Longrightarrow>
   level_of w a = int i \<and> node_of w a \<noteq> None"
  by (auto simp: levels_ok_def)

lemma heap_read_node_of:
  "heap_read (nodeHeap w) a = (case node_of w a of None \<Rightarrow> Inl DanglingPointer | Some n \<Rightarrow> Inr n)"
  by (simp add: heap_read_def node_of_def)

lemma force_at_in_tree:
  assumes "tree_inv w" "getNBodies w \<le> length f" "a \<in> set (tree_nodes w)"
  shows "force_at w f a = Inr (slot_of w f a)"
proof -
  from assms(3) obtain i where i: "i < length (rbNodeLevels w)" "a \<in> set (rbNodeLevels w ! i)"
    using in_tree_nodes [of a w] by blast
  with assms(1) have "node_of w a \<noteq> None"
    using levels_ok_level [of w i a] by (simp add: tree_inv_def)
  then obtain n where n: "node_of w a = Some n" by auto
  from assms(1,3) have "num_of w a \<in> int ` {0..<getNBodies w}"
    by (auto simp: tree_inv_def nums_ok_def)
  with assms(2) have "0 \<le> num_of w a" "num_of w a < int (length f)" by auto
  with n show ?thesis
    by (simp add: force_at_def heap_read_node_of slot_of_def num_of_def)
qed

lemma tree_order:
  assumes inv: "tree_inv w" and n: "n \<in> set (tree_nodes w)" and m: "m \<in> set (tree_nodes w)"
    and lt: "level_of w m < level_of w n"
  shows "strictly_before (tip_to_base w) n m"
proof -
  have lo: "levels_ok w" using inv by (simp add: tree_inv_def)
  from n obtain i where i: "i < length (rbNodeLevels w)" "n \<in> set (rbNodeLevels w ! i)"
    by (auto simp: in_tree_nodes)
  from m obtain j where j: "j < length (rbNodeLevels w)" "m \<in> set (rbNodeLevels w ! j)"
    by (auto simp: in_tree_nodes)
  have li: "level_of w n = int i" using levels_ok_level [OF lo i] by simp
  have lj: "level_of w m = int j" using levels_ok_level [OF lo j] by simp
  have ji: "j < i" using lt li lj by simp
  show ?thesis
    unfolding tip_to_base_def
  proof (rule sweep_order [OF ji i(1) i(2) j(2)])
    fix k assume "k < length (rbNodeLevels w)" "n \<in> set (rbNodeLevels w ! k)"
    then have "level_of w n = int k" using levels_ok_level [OF lo] by blast
    with li ji show "j < k" by simp
  next
    fix k assume "k < length (rbNodeLevels w)" "m \<in> set (rbNodeLevels w ! k)"
    then have "level_of w m = int k" using levels_ok_level [OF lo] by blast
    with lj show "k \<le> j" by simp
  qed
qed

lemma tree_live:
  assumes "tree_inv w" "a \<in> set (tree_nodes w)"
  shows "live (nodeHeap w) a"
proof -
  from assms(2) obtain i where i: "i < length (rbNodeLevels w)" "a \<in> set (rbNodeLevels w ! i)"
    using in_tree_nodes [of a w] by blast
  with assms(1) have "node_of w a \<noteq> None"
    using levels_ok_level [of w i a] by (simp add: tree_inv_def)
  then show ?thesis by (auto simp: node_of_def live_def split: if_splits)
qed

lemma calcP_ok:
  assumes "tree_inv w"
  shows "calcP w = Inr (w\<lparr>calls := calls w @ map CalcP (tip_to_base w)\<rparr>)"
  unfolding calcP_def tip_to_base_def
  using calcP_outer_ok [of "length (rbNodeLevels w)" w] tree_live [OF assms]
  by (simp add: tree_nodes_def)

lemma calcZ_ok:
  assumes "tree_inv w" "getNBodies w \<le> length f"
  shows "calcZ f w = Inr (w\<lparr>calls := calls w @ map (\<lambda>a. CalcZ a (slot_of w f a)) (tip_to_base w)\<rparr>)"
  unfolding calcZ_def tip_to_base_def
  using calcZ_outer_ok [of "length (rbNodeLevels w)" w f "slot_of w f"]
    force_at_in_tree [OF assms]
  by (simp add: tree_nodes_def)

lemma child_level:
  assumes "tree_inv w" "c \<in> set (tree_nodes w)" "is_child_of w c p"
  shows "p \<in> set (tree_nodes w) \<and> level_of w p < level_of w c"
proof -
  from assms(3) obtain cn where cn: "node_of w c = Some cn" "parentPtr cn = Some p"
    by (auto simp: is_child_of_def split: option.splits)
  from assms(1) have "links_ok w" by (simp add: tree_inv_def)
  with assms(2) cn have "p \<in> set (tree_nodes w) \<and> level cn = level_of w p + 1"
    unfolding links_ok_def by fastforce
  with cn show ?thesis by (simp add: level_of_def)
qed

text \<open>
  C1. In a tree that satisfies the forest invariants, for any two nodes \<open>n\<close> and \<open>m\<close> of
  the tree such that the level of \<open>n\<close> is greater than the level of \<open>m\<close>, or such that
  \<open>n\<close> is a child of \<open>m\<close>, the sweep \<^verbatim>\<open>calcP\<close> returns, and among the calls it makes
  the one on \<open>n\<close> comes strictly before the one on \<open>m\<close>; and, given a force list with an
  entry for every body, the sweep \<^verbatim>\<open>calcZ\<close> returns, and its call on \<open>n\<close> comes strictly
  before its call on \<open>m\<close>.
\<close>

theorem C1_tip_to_base_order:
  assumes "tree_inv w" and "getNBodies w \<le> length spatialForces"
  shows "(\<forall>n \<in> set (tree_nodes w). \<forall>m \<in> set (tree_nodes w).
            level_of w m < level_of w n \<or> is_child_of w n m \<longrightarrow>
            (\<exists>w'. calcP w = Inr w' \<and>
               strictly_before (calls_made w w') (CalcP n) (CalcP m)) \<and>
            (\<exists>w'. calcZ spatialForces w = Inr w' \<and>
               strictly_before (calls_made w w')
                 (CalcZ n (slot_of w spatialForces n)) (CalcZ m (slot_of w spatialForces m))))"
proof (intro ballI impI)
  fix n m assume n: "n \<in> set (tree_nodes w)" and m: "m \<in> set (tree_nodes w)"
    and "level_of w m < level_of w n \<or> is_child_of w n m"
  then have lt: "level_of w m < level_of w n"
    using child_level [OF assms(1) n] by blast
  have sb: "strictly_before (tip_to_base w) n m"
    by (rule tree_order [OF assms(1) n m lt])
  have "inj CalcP" by (simp add: inj_on_def)
  from strictly_before_map [OF this sb]
  have "strictly_before (calls_made w (w\<lparr>calls := calls w @ map CalcP (tip_to_base w)\<rparr>))
      (CalcP n) (CalcP m)"
    by (simp add: calls_made_def)
  with calcP_ok [OF assms(1)]
  have p: "\<exists>w'. calcP w = Inr w' \<and> strictly_before (calls_made w w') (CalcP n) (CalcP m)"
    by blast
  have "inj (\<lambda>a. CalcZ a (slot_of w spatialForces a))" by (simp add: inj_on_def)
  from strictly_before_map [OF this sb]
  have "strictly_before (calls_made w (w\<lparr>calls := calls w @ map (\<lambda>a. CalcZ a (slot_of w spatialForces a)) (tip_to_base w)\<rparr>))
      (CalcZ n (slot_of w spatialForces n)) (CalcZ m (slot_of w spatialForces m))"
    by (simp add: calls_made_def)
  with calcZ_ok [OF assms] p
  show "(\<exists>w'. calcP w = Inr w' \<and>
               strictly_before (calls_made w w') (CalcP n) (CalcP m)) \<and>
            (\<exists>w'. calcZ spatialForces w = Inr w' \<and>
               strictly_before (calls_made w w')
                 (CalcZ n (slot_of w spatialForces n)) (CalcZ m (slot_of w spatialForces m)))"
    by blast
qed

lemma example_tree_nodes: "tree_nodes example_tree = [5, 0, 1, 2]"
  by (simp add: tree_nodes_def example_tree_def)

lemma example_tree_inv: "tree_inv example_tree"
  by code_simp

lemma example_levels: "level_of example_tree 5 = 0" "level_of example_tree 2 = 2"
  by (simp_all add: level_of_def node_of_def example_tree_def)

theorem C1_tip_to_base_order_witness:
  "tree_inv example_tree \<and> getNBodies example_tree \<le> length example_forces \<and>
   2 \<in> set (tree_nodes example_tree) \<and> 5 \<in> set (tree_nodes example_tree) \<and>
   level_of example_tree 5 < level_of example_tree 2 \<and>
   (\<exists>w'. calcP example_tree = Inr w' \<and>
      strictly_before (calls_made example_tree w') (CalcP 2) (CalcP 5)) \<and>
   (\<exists>w'. calcZ example_forces example_tree = Inr w' \<and>
      strictly_before (calls_made example_tree w')
        (CalcZ 2 (slot_of example_tree example_forces 2))
        (CalcZ 5 (slot_of example_tree example_forces 5)))"
proof -
  have len: "getNBodies example_tree \<le> length example_forces"
    by (simp add: getNBodies_def example_tree_def example_forces_def)
  have n: "2 \<in> set (tree_nodes example_tree)" and m: "5 \<in> set (tree_nodes example_tree)"
    by (simp_all add: example_tree_nodes)
  have lt: "level_of example_tree 5 < level_of example_tree 2"
    by (simp add: example_levels)
  from C1_tip_to_base_order [OF example_tree_inv len] n m lt
  have "(\<exists>w'. calcP example_tree = Inr w' \<and>
      strictly_before (calls_made example_tree w') (CalcP 2) (CalcP 5)) \<and>
   (\<exists>w'. calcZ example_forces example_tree = Inr w' \<and>
      strictly_before (calls_made example_tree w')
        (CalcZ 2 (slot_of example_tree example_forces 2))
        (CalcZ 5 (slot_of example_tree example_forces 5)))"
    by blast
  with example_tree_inv len n m lt show ?thesis by simp
qed

section \<open>Reading the force list\<close>

text \<open>
  When a tip-to-base sweep over the force list fails, it fails at a node whose entry cannot
  be read; in a tree that satisfies the invariants the only reason is an index out of
  range, and that happens as soon as the list is shorter than the number of bodies.
\<close>

lemma calcZ_inner_Inl:
  "calcZ_inner f as w = Inl e \<Longrightarrow> \<exists>a\<in>set as. force_at w f a = Inl e"
proof (induction as arbitrary: w)
  case Nil
  then show ?case by simp
next
  case (Cons a as)
  show ?case
  proof (cases "force_at w f a")
    case (Inl e')
    with Cons.prems show ?thesis by simp
  next
    case (Inr x)
    with Cons.prems have "calcZ_inner f as (node_calcZ a x w) = Inl e" by simp
    from Cons.IH [OF this] show ?thesis by (auto simp: node_calcZ_def)
  qed
qed

lemma calcZ_outer_Inl:
  "calcZ_outer f k w = Inl e \<Longrightarrow> k \<le> length (rbNodeLevels w) \<Longrightarrow>
   \<exists>a\<in>set (concat (take k (rbNodeLevels w))). force_at w f a = Inl e"
proof (induction k arbitrary: w)
  case 0
  then show ?case by simp
next
  case (Suc k)
  have k: "k < length (rbNodeLevels w)" using Suc.prems(2) by simp
  show ?case
  proof (cases "calcZ_inner f (rbNodeLevels w ! k) w")
    case (Inl e')
    with Suc.prems(1) have "e' = e" by simp
    with Inl calcZ_inner_Inl [of f "rbNodeLevels w ! k" w e] k show ?thesis
      by (auto simp: take_Suc_conv_app_nth)
  next
    case (Inr w0)
    from calcZ_inner_Inr [OF Inr] have eq: "w0 = w\<lparr>calls := calls w0\<rparr>" by simp
    have lv: "rbNodeLevels w0 = rbNodeLevels w" by (subst eq) simp
    have fa: "\<And>a. force_at w0 f a = force_at w f a" by (subst eq) simp
    from Inr Suc.prems(1) have "calcZ_outer f k w0 = Inl e" by simp
    from Suc.IH [OF this] k lv fa show ?thesis
      by (auto simp: take_Suc_conv_app_nth)
  qed
qed

lemma force_at_tree_cases:
  assumes "tree_inv w" "a \<in> set (tree_nodes w)"
  shows "force_at w f a =
     (if num_of w a < int (length f) then Inr (slot_of w f a) else Inl IndexOutOfRange)"
proof -
  from assms(2) obtain i where i: "i < length (rbNodeLevels w)" "a \<in> set (rbNodeLevels w ! i)"
    using in_tree_nodes [of a w] by blast
  with assms(1) have "node_of w a \<noteq> None"
    using levels_ok_level [of w i a] by (simp add: tree_inv_def)
  then obtain n where n: "node_of w a = Some n" by auto
  from assms have "num_of w a \<in> int ` {0..<getNBodies w}"
    by (auto simp: tree_inv_def nums_ok_def)
  then have "0 \<le> num_of w a" by auto
  with n show ?thesis
    by (simp add: force_at_def heap_read_node_of slot_of_def num_of_def)
qed

lemma last_body_in_tree:
  assumes "tree_inv w" "length f < getNBodies w"
  shows "\<exists>a\<in>set (tree_nodes w). force_at w f a = Inl IndexOutOfRange"
proof -
  have "getNBodies w - 1 \<in> {0..<getNBodies w}" using assms(2) by simp
  then have "int (getNBodies w - 1) \<in> int ` {0..<getNBodies w}" by (rule imageI)
  with assms(1) have "int (getNBodies w - 1) \<in> set (map (num_of w) (tree_nodes w))"
    by (simp add: tree_inv_def nums_ok_def)
  then obtain a where a: "a \<in> set (tree_nodes w)" "num_of w a = int (getNBodies w - 1)"
    by auto
  with assms(2) have "\<not> num_of w a < int (length f)" by simp
  with force_at_tree_cases [OF assms(1) a(1), of f] a(1) show ?thesis by auto
qed

lemma calcZ_short:
  assumes "tree_inv w" "length f < getNBodies w"
  shows "calcZ f w = Inl IndexOutOfRange"
proof (cases "calcZ f w")
  case (Inl e)
  then have "\<exists>a\<in>set (tree_nodes w). force_at w f a = Inl e"
    using calcZ_outer_Inl [of f "length (rbNodeLevels w)" w e]
    by (simp add: calcZ_def tree_nodes_def)
  then obtain a where "a \<in> set (tree_nodes w)" "force_at w f a = Inl e" by blast
  with force_at_tree_cases [OF assms(1), of a f] have "e = IndexOutOfRange"
    by (auto split: if_splits)
  with Inl show ?thesis by simp
next
  case (Inr w1)
  then have "\<forall>a\<in>set (tree_nodes w). \<not> isl (force_at w f a)"
    using calcZ_outer_Inr [of f "length (rbNodeLevels w)" w w1]
    by (simp add: calcZ_def tree_nodes_def)
  with last_body_in_tree [OF assms] show ?thesis by auto
qed

lemma calcInternalForce_inner_ok:
  "\<forall>a\<in>set as. force_at w f a = Inr (g a) \<Longrightarrow>
   calcInternalForce_inner f as w = Inr (w\<lparr>calls := calls w @ map (\<lambda>a. CalcInternalForce a (g a)) as\<rparr>)"
  by (induction as arbitrary: w) (simp_all add: node_calcInternalForce_def)

lemma calcInternalForce_inner_Inr:
  "calcInternalForce_inner f as w = Inr w1 \<Longrightarrow>
   w1 = w\<lparr>calls := calls w1\<rparr> \<and> (\<forall>a\<in>set as. \<not> isl (force_at w f a))"
proof (induction as arbitrary: w)
  case Nil
  then show ?case by simp
next
  case (Cons a as)
  then obtain x where x: "force_at w f a = Inr x"
    by (cases "force_at w f a") auto
  with Cons.prems have "calcInternalForce_inner f as (node_calcInternalForce a x w) = Inr w1" by simp
  from Cons.IH [OF this] x show ?case
    by (auto simp: node_calcInternalForce_def)
qed

lemma calcInternalForce_outer_ok:
  "k \<le> length (rbNodeLevels w) \<Longrightarrow>
   \<forall>a\<in>set (concat (take k (rbNodeLevels w))). force_at w f a = Inr (g a) \<Longrightarrow>
   calcInternalForce_outer f k w =
     Inr (w\<lparr>calls := calls w @ map (\<lambda>a. CalcInternalForce a (g a)) (concat (rev (take k (rbNodeLevels w))))\<rparr>)"
proof (induction k arbitrary: w)
  case 0
  then show ?case by simp
next
  case (Suc k)
  have k: "k < length (rbNodeLevels w)" using Suc.prems(1) by simp
  have inner: "calcInternalForce_inner f (rbNodeLevels w ! k) w =
      Inr (w\<lparr>calls := calls w @ map (\<lambda>a. CalcInternalForce a (g a)) (rbNodeLevels w ! k)\<rparr>)"
    using Suc.prems(2) k by (intro calcInternalForce_inner_ok) (auto simp: take_Suc_conv_app_nth)
  have "calcInternalForce_outer f k (w\<lparr>calls := calls w @ map (\<lambda>a. CalcInternalForce a (g a)) (rbNodeLevels w ! k)\<rparr>) =
      Inr (w\<lparr>calls := (calls w @ map (\<lambda>a. CalcInternalForce a (g a)) (rbNodeLevels w ! k)) @
             map (\<lambda>a. CalcInternalForce a (g a)) (concat (rev (take k (rbNodeLevels w))))\<rparr>)"
    using Suc.IH [of "w\<lparr>calls := calls w @ map (\<lambda>a. CalcInternalForce a (g a)) (rbNodeLevels w ! k)\<rparr>"]
      Suc.prems k by (auto simp: take_Suc_conv_app_nth)
  with inner k show ?case
    by (simp add: take_Suc_conv_app_nth)
qed

lemma calcInternalForce_outer_Inr:
  "calcInternalForce_outer f k w = Inr w1 \<Longrightarrow> k \<le> length (rbNodeLevels w) \<Longrightarrow>
   \<forall>a\<in>set (concat (take k (rbNodeLevels w))). \<not> isl (force_at w f a)"
proof (induction k arbitrary: w)
  case 0
  then show ?case by simp
next
  case (Suc k)
  have k: "k < length (rbNodeLevels w)" using Suc.prems(2) by simp
  from Suc.prems(1) obtain w0 where w0: "calcInternalForce_inner f (rbNodeLevels w ! k) w = Inr w0"
    and rest: "calcInternalForce_outer f k w0 = Inr w1"
    by (cases "calcInternalForce_inner f (rbNodeLevels w ! k) w") auto
  from calcInternalForce_inner_Inr [OF w0] have eq: "w0 = w\<lparr>calls := calls w0\<rparr>"
    and here: "\<forall>a\<in>set (rbNodeLevels w ! k). \<not> isl (force_at w f a)" by auto
  have lv: "rbNodeLevels w0 = rbNodeLevels w" by (subst eq) simp
  have fa: "\<And>a. force_at w0 f a = force_at w f a" by (subst eq) simp
  from Suc.IH [OF rest] k lv fa
  have "\<forall>a\<in>set (concat (take k (rbNodeLevels w))). \<not> isl (force_at w f a)" by simp
  with here k show ?case by (auto simp: take_Suc_conv_app_nth)
qed

lemma calcInternalForce_inner_Inl:
  "calcInternalForce_inner f as w = Inl e \<Longrightarrow> \<exists>a\<in>set as. force_at w f a = Inl e"
proof (induction as arbitrary: w)
  case Nil
  then show ?case by simp
next
  case (Cons a as)
  show ?case
  proof (cases "force_at w f a")
    case (Inl e')
    with Cons.prems show ?thesis by simp
  next
    case (Inr x)
    with Cons.prems have "calcInternalForce_inner f as (node_calcInternalForce a x w) = Inl e" by simp
    from Cons.IH [OF this] show ?thesis by (auto simp: node_calcInternalForce_def)
  qed
qed

lemma calcInternalForce_outer_Inl:
  "calcInternalForce_outer f k w = Inl e \<Longrightarrow> k \<le> length (rbNodeLevels w) \<Longrightarrow>
   \<exists>a\<in>set (concat (take k (rbNodeLevels w))). force_at w f a = Inl e"
proof (induction k arbitrary: w)
  case 0
  then show ?case by simp
next
  case (Suc k)
  have k: "k < length (rbNodeLevels w)" using Suc.prems(2) by simp
  show ?case
  proof (cases "calcInternalForce_inner f (rbNodeLevels w ! k) w")
    case (Inl e')
    with Suc.prems(1) have "e' = e" by simp
    with Inl calcInternalForce_inner_Inl [of f "rbNodeLevels w ! k" w e] k show ?thesis
      by (auto simp: take_Suc_conv_app_nth)
  next
    case (Inr w0)
    from calcInternalForce_inner_Inr [OF Inr] have eq: "w0 = w\<lparr>calls := calls w0\<rparr>" by simp
    have lv: "rbNodeLevels w0 = rbNodeLevels w" by (subst eq) simp
    have fa: "\<And>a. force_at w0 f a = force_at w f a" by (subst eq) simp
    from Inr Suc.prems(1) have "calcInternalForce_outer f k w0 = Inl e" by simp
    from Suc.IH [OF this] k lv fa show ?thesis
      by (auto simp: take_Suc_conv_app_nth)
  qed
qed

lemma calcTreeInternalForces_ok:
  assumes "tree_inv w" "getNBodies w \<le> length f"
  shows "calcTreeInternalForces f w = Inr (w\<lparr>calls := calls w @ map (\<lambda>a. CalcInternalForce a (slot_of w f a)) (tip_to_base w)\<rparr>)"
  unfolding calcTreeInternalForces_def tip_to_base_def
  using calcInternalForce_outer_ok [of "length (rbNodeLevels w)" w f "slot_of w f"]
    force_at_in_tree [OF assms]
  by (simp add: tree_nodes_def)

lemma calcTreeInternalForces_short:
  assumes "tree_inv w" "length f < getNBodies w"
  shows "calcTreeInternalForces f w = Inl IndexOutOfRange"
proof (cases "calcTreeInternalForces f w")
  case (Inl e)
  then have "\<exists>a\<in>set (tree_nodes w). force_at w f a = Inl e"
    using calcInternalForce_outer_Inl [of f "length (rbNodeLevels w)" w e]
    by (simp add: calcTreeInternalForces_def tree_nodes_def)
  then obtain a where "a \<in> set (tree_nodes w)" "force_at w f a = Inl e" by blast
  with force_at_tree_cases [OF assms(1), of a f] have "e = IndexOutOfRange"
    by (auto split: if_splits)
  with Inl show ?thesis by simp
next
  case (Inr w1)
  then have "\<forall>a\<in>set (tree_nodes w). \<not> isl (force_at w f a)"
    using calcInternalForce_outer_Inr [of f "length (rbNodeLevels w)" w w1]
    by (simp add: calcTreeInternalForces_def tree_nodes_def)
  with last_body_in_tree [OF assms] show ?thesis by auto
qed

lemma distinct_map_tip_to_base:
  "distinct (map f (concat (rev ls))) = distinct (map f (concat ls))"
  by (induction ls) auto

lemma set_tip_to_base: "set (tip_to_base w) = set (tree_nodes w)"
  by (auto simp: tip_to_base_def tree_nodes_def)

text \<open>
  C10. In a tree that satisfies the forest invariants, \<^verbatim>\<open>calcZ\<close> and
  \<^verbatim>\<open>calcTreeInternalForces\<close> pass to each node of the tree, ground included, the entry
  of the force list at that node's number. If the list has an entry for every body the
  sweeps return, having called every node with its own entry; if it is shorter, both stop
  with an index out of range. The node numbers of the nodes visited are
  \<open>0\<close>, \ldots, \<open>n - 1\<close>, each once, so that no two nodes read the same entry; the
  ground node is among the nodes visited and reads entry \<open>0\<close>.
\<close>

theorem C10_force_slots:
  assumes "tree_inv w"
  shows "(if getNBodies w \<le> length f
          then calcZ f w =
                 Inr (w\<lparr>calls := calls w @ map (\<lambda>a. CalcZ a (slot_of w f a)) (tip_to_base w)\<rparr>) \<and>
               calcTreeInternalForces f w =
                 Inr (w\<lparr>calls := calls w @
                        map (\<lambda>a. CalcInternalForce a (slot_of w f a)) (tip_to_base w)\<rparr>)
          else calcZ f w = Inl IndexOutOfRange \<and>
               calcTreeInternalForces f w = Inl IndexOutOfRange) \<and>
         set (tip_to_base w) = set (tree_nodes w) \<and>
         distinct (map (num_of w) (tip_to_base w)) \<and>
         set (map (num_of w) (tip_to_base w)) = int ` {0..<getNBodies w} \<and>
         (\<forall>g. ground_of w = Some g \<longrightarrow> g \<in> set (tip_to_base w) \<and> slot_of w f g = f ! 0)"
proof -
  have "\<forall>g. ground_of w = Some g \<longrightarrow> g \<in> set (tip_to_base w) \<and> slot_of w f g = f ! 0"
    using assms
    by (auto simp: ground_of_def tree_inv_def ground_ok_def tip_to_base_def slot_of_def
        split: list.splits)
  moreover have "distinct (map (num_of w) (tip_to_base w))"
    using assms by (simp add: tip_to_base_def distinct_map_tip_to_base tree_inv_def nums_ok_def tree_nodes_def)
  moreover have "set (map (num_of w) (tip_to_base w)) = int ` {0..<getNBodies w}"
    using assms set_tip_to_base [of w] by (simp add: tree_inv_def nums_ok_def)
  ultimately show ?thesis
    using calcZ_ok [OF assms, of f] calcTreeInternalForces_ok [OF assms, of f]
      calcZ_short [OF assms, of f] calcTreeInternalForces_short [OF assms, of f]
      set_tip_to_base [of w]
    by (simp add: not_le)
qed

theorem C10_force_slots_witness:
  "tree_inv example_tree \<and>
   calcZ example_forces example_tree =
     Inr (example_tree\<lparr>calls :=
        [CalcZ 2 (example_force 3), CalcZ 0 (example_force 1), CalcZ 1 (example_force 2),
         CalcZ 5 (example_force 0)]\<rparr>) \<and>
   calcTreeInternalForces example_forces example_tree =
     Inr (example_tree\<lparr>calls :=
        [CalcInternalForce 2 (example_force 3), CalcInternalForce 0 (example_force 1),
         CalcInternalForce 1 (example_force 2), CalcInternalForce 5 (example_force 0)]\<rparr>) \<and>
   calcZ (butlast example_forces) example_tree = Inl IndexOutOfRange \<and>
   calcTreeInternalForces (butlast example_forces) example_tree = Inl IndexOutOfRange"
proof -
  have inv: "tree_inv example_tree" by (rule example_tree_inv)
  have n: "getNBodies example_tree = 4" by (simp add: getNBodies_def example_tree_def)
  have t: "tip_to_base example_tree = [2, 0, 1, 5]" by (simp add: tip_to_base_def example_tree_def)
  have c: "calls example_tree = []" by (simp add: example_tree_def)
  have s: "slot_of example_tree example_forces 2 = example_force 3"
    "slot_of example_tree example_forces 0 = example_force 1"
    "slot_of example_tree example_forces (Suc 0) = example_force 2"
    "slot_of example_tree example_forces 5 = example_force 0"
    by (simp_all add: slot_of_def num_of_def node_of_def example_tree_def example_forces_def)
  have l1: "getNBodies example_tree \<le> length example_forces"
    and l2: "\<not> getNBodies example_tree \<le> length example_forces - Suc 0"
    by (simp_all add: n example_forces_def)
  from C10_force_slots [OF inv, of example_forces] C10_force_slots [OF inv, of "butlast example_forces"] inv
  show ?thesis
    by (simp add: l1 l2 t c s)
qed

section \<open>Construction keeps the invariants\<close>

text \<open>
  \<^verbatim>\<open>addGroundNode\<close> on an empty tree gives a tree that satisfies the invariants, and
  \<^verbatim>\<open>addRigidBodyNode\<close> keeps them when, as the spec asks, the parent is a node of the
  tree and the new node is a live node that the tree does not hold yet.
\<close>

lemma heap_read_update:
  "heap_read (h[a := Some v]) b = (if a = b \<and> a < length h then Inr v else heap_read h b)"
  by (auto simp: heap_read_def)

lemma set_concat_append_at:
  "i < length L \<Longrightarrow> set (concat (L[i := L ! i @ [x]])) = insert x (set (concat L))"
proof (induction L arbitrary: i)
  case Nil
  then show ?case by simp
next
  case (Cons l L)
  then show ?case by (cases i) auto
qed

lemma Union_set_append_at:
  "i < length L \<Longrightarrow> \<Union> (set ` set (L[i := L ! i @ [x]])) = insert x (\<Union> (set ` set L))"
  using set_concat_append_at [of i L x] by simp

lemma distinct_map_concat_append_at:
  "i < length L \<Longrightarrow>
   distinct (map f (concat (L[i := L ! i @ [x]]))) \<longleftrightarrow>
   distinct (map f (concat L)) \<and> f x \<notin> f ` set (concat L)"
proof (induction L arbitrary: i)
  case Nil
  then show ?case by simp
next
  case (Cons l L)
  show ?case
  proof (cases i)
    case 0
    then show ?thesis by auto
  next
    case (Suc j)
    with Cons.prems have j: "j < length L" by simp
    show ?thesis
      using Cons.IH [OF j] Suc j by (auto simp: Union_set_append_at)
  qed
qed

lemma addRigidBodyNode_effect:
  assumes p: "node_of w parent = Some p" and lp: "level p = int lp" "lp < length (rbNodeLevels w)"
    and n: "node_of w n = Some nn" and ne: "n \<noteq> parent"
  shows "\<exists>w'. addRigidBodyNode w parent referenceConfig (Some n) = Inr (w', int (getNBodies w)) \<and>
     rbNodeLevels w' =
       (if Suc lp < length (rbNodeLevels w)
        then (rbNodeLevels w)[Suc lp := rbNodeLevels w ! Suc lp @ [n]]
        else rbNodeLevels w @ [[n]]) \<and>
     getNBodies w' = Suc (getNBodies w) \<and>
     node_of w' n = Some (nn\<lparr>level := int (Suc lp), nodeNum := int (getNBodies w),
                             parentPtr := Some parent\<rparr>) \<and>
     node_of w' parent = Some (p\<lparr>children := children p @ [(n, referenceConfig)]\<rparr>) \<and>
     (\<forall>a. a \<noteq> n \<and> a \<noteq> parent \<longrightarrow> node_of w' a = node_of w a)"
proof -
  have len: "n < length (nodeHeap w)" "parent < length (nodeHeap w)"
    using p n by (auto simp: node_of_def split: if_splits)
  have rd: "heap_read (nodeHeap w) parent = Inr p" "heap_read (nodeHeap w) n = Inr nn"
    using p n by (simp_all add: heap_read_node_of)
  show ?thesis
  proof (cases "Suc lp < length (rbNodeLevels w)")
    case True
    then show ?thesis
      using rd len lp ne
      by (auto simp: addRigidBodyNode_def setLevel_def setNodeNum_def addChild_def Let_def
          heap_read_update getNBodies_def node_of_def nth_list_update nat_add_distrib)
  next
    case False
    with lp(2) have eq: "length (rbNodeLevels w) = Suc lp" by simp
    have rz: "resize (rbNodeLevels w) (Suc (Suc lp)) = rbNodeLevels w @ [[]]"
      by (simp add: resize_def eq)
    have nt: "nat (int lp + 1) = Suc lp" "nat (2 + int lp) = Suc (Suc lp)" by simp_all
    have up: "(rbNodeLevels w @ [[]])[Suc lp := [n]] = rbNodeLevels w @ [[n]]"
      using eq by (metis list_update_length)
    show ?thesis
      using rd len lp(1) ne eq
      by (auto simp: addRigidBodyNode_def setLevel_def setNodeNum_def addChild_def Let_def
          heap_read_update getNBodies_def node_of_def nth_list_update nt rz nth_append up)
  qed
qed

lemma addRigidBodyNode_preserves:
  assumes inv: "tree_inv w" and par: "parent \<in> set (tree_nodes w)"
    and fresh: "n \<notin> set (tree_nodes w)" and lv: "live (nodeHeap w) n"
  shows "\<exists>w'. addRigidBodyNode w parent referenceConfig (Some n) = Inr (w', int (getNBodies w)) \<and>
           tree_inv w' \<and> set (tree_nodes w') = insert n (set (tree_nodes w)) \<and>
           is_child_of w' n parent \<and> level_of w' n = level_of w parent + 1"
proof -
  let ?L = "rbNodeLevels w"
  let ?N = "getNBodies w"
  have lo: "levels_ok w" and no: "nums_ok w" and ko: "links_ok w"
    using inv by (simp_all add: tree_inv_def)
  from par obtain lp where lp: "lp < length ?L" "parent \<in> set (?L ! lp)"
    using in_tree_nodes [of parent w] by blast
  from levels_ok_level [OF lo lp] obtain p where p: "node_of w parent = Some p"
    and plev: "level_of w parent = int lp" by auto
  then have plev': "level p = int lp" by (simp add: level_of_def)
  from lv obtain nn where nn: "node_of w n = Some nn"
    by (auto simp: live_def node_of_def)
  have ne: "n \<noteq> parent" using par fresh by auto
  from addRigidBodyNode_effect [OF p plev' lp(1) nn ne, of referenceConfig]
  obtain w' where res: "addRigidBodyNode w parent referenceConfig (Some n) = Inr (w', int ?N)"
    and L': "rbNodeLevels w' =
       (if Suc lp < length ?L then ?L[Suc lp := ?L ! Suc lp @ [n]] else ?L @ [[n]])"
    and N': "getNBodies w' = Suc ?N"
    and n': "node_of w' n = Some (nn\<lparr>level := int (Suc lp), nodeNum := int ?N,
                             parentPtr := Some parent\<rparr>)"
    and p': "node_of w' parent = Some (p\<lparr>children := children p @ [(n, referenceConfig)]\<rparr>)"
    and other: "\<forall>a. a \<noteq> n \<and> a \<noteq> parent \<longrightarrow> node_of w' a = node_of w a"
    by blast
  have same: "map_option level (node_of w' a) = map_option level (node_of w a) \<and>
      map_option nodeNum (node_of w' a) = map_option nodeNum (node_of w a) \<and>
      map_option parentPtr (node_of w' a) = map_option parentPtr (node_of w a)" if "a \<noteq> n" for a
    using that p p' other by (cases "a = parent") auto
  have lev_same: "level_of w' a = level_of w a" if "a \<noteq> n" for a
    using same [OF that] by (auto simp: level_of_def split: option.splits)
  have num_same: "num_of w' a = num_of w a" if "a \<noteq> n" for a
    using same [OF that] by (auto simp: num_of_def split: option.splits)
  have ex_same: "node_of w' a \<noteq> None \<longleftrightarrow> node_of w a \<noteq> None" if "a \<noteq> n" for a
    using same [OF that] by (cases "node_of w' a"; cases "node_of w a") auto
  have lev_n: "level_of w' n = int (Suc lp)" and num_n: "num_of w' n = int ?N"
    using n' by (simp_all add: level_of_def num_of_def)
  have nodes: "set (tree_nodes w') = insert n (set (tree_nodes w))"
    using L' set_concat_append_at [of "Suc lp" ?L n] by (auto simp: tree_nodes_def)
  have in_old: "a \<noteq> n" if "i < length ?L" "a \<in> set (?L ! i)" for a i
    using that fresh in_tree_nodes [of a w] by auto
  have "levels_ok w'"
    unfolding levels_ok_def
  proof (intro ballI)
    fix i assume "i \<in> {0..<length (rbNodeLevels w')}"
    then have i: "i < length (rbNodeLevels w')" by simp
    show "distinct (rbNodeLevels w' ! i) \<and>
        (\<forall>a\<in>set (rbNodeLevels w' ! i). node_of w' a \<noteq> None \<and> level_of w' a = int i)"
    proof (cases "i < length ?L \<and> i \<noteq> Suc lp")
      case True
      then have eq: "rbNodeLevels w' ! i = ?L ! i"
        using L' by (auto simp: nth_append)
      from True lo have "distinct (?L ! i)"
        and "\<forall>a\<in>set (?L ! i). node_of w a \<noteq> None \<and> level_of w a = int i"
        by (auto simp: levels_ok_def)
      then show ?thesis
        using eq True in_old [of i] ex_same lev_same by auto
    next
      case False
      with i L' lp(1) have iS: "i = Suc lp"
        by (auto split: if_splits)
      show ?thesis
      proof (cases "Suc lp < length ?L")
        case True
        then have eq: "rbNodeLevels w' ! i = ?L ! Suc lp @ [n]"
          using L' iS by simp
        from True lo have "distinct (?L ! Suc lp)"
          and "\<forall>a\<in>set (?L ! Suc lp). node_of w a \<noteq> None \<and> level_of w a = int (Suc lp)"
          by (auto simp: levels_ok_def)
        then show ?thesis
          using eq True in_old [of "Suc lp"] ex_same lev_same lev_n n' iS by auto
      next
        case False
        with lp(1) have "length ?L = Suc lp" by simp
        then have eq: "rbNodeLevels w' ! i = [n]"
          using L' iS by (simp add: nth_append)
        then show ?thesis using lev_n n' iS by simp
      qed
    qed
  qed
  moreover have "nums_ok w'"
  proof -
    have old: "map (num_of w') (concat ?L) = map (num_of w) (concat ?L)"
    proof (rule map_cong [OF refl])
      fix a assume "a \<in> set (concat ?L)"
      with fresh have "a \<noteq> n" by (auto simp: tree_nodes_def)
      then show "num_of w' a = num_of w a" by (rule num_same)
    qed
    have nin: "num_of w' n \<notin> num_of w' ` set (concat ?L)"
    proof -
      have "num_of w' ` set (concat ?L) = set (map (num_of w) (concat ?L))"
        using old by (metis set_map)
      also have "\<dots> = int ` {0..<?N}" using no by (simp add: nums_ok_def tree_nodes_def)
      finally show ?thesis using num_n by auto
    qed
    have dold: "distinct (map (num_of w') (concat ?L))"
      unfolding old using no by (simp add: nums_ok_def tree_nodes_def)
    have d: "distinct (map (num_of w') (tree_nodes w'))"
    proof (cases "Suc lp < length ?L")
      case True
      then show ?thesis
        using L' distinct_map_concat_append_at [of "Suc lp" ?L "num_of w'" n] dold nin
        by (simp add: tree_nodes_def)
    next
      case False
      then show ?thesis
        using L' dold nin by (simp add: tree_nodes_def)
    qed
    have "set (map (num_of w') (tree_nodes w')) = insert (num_of w' n) (num_of w' ` set (concat ?L))"
      using nodes by (simp add: tree_nodes_def)
    also have "num_of w' ` set (concat ?L) = int ` {0..<?N}"
      using old no by (metis set_map nums_ok_def tree_nodes_def)
    also have "insert (num_of w' n) (int ` {0..<?N}) = int ` {0..<Suc ?N}"
      using num_n by (simp add: atLeast0_lessThan_Suc)
    finally show ?thesis using d N' by (simp add: nums_ok_def)
  qed
  moreover have "links_ok w'"
    unfolding links_ok_def
  proof (intro ballI)
    fix a assume "a \<in> set (tree_nodes w')"
    then have a: "a = n \<or> a \<in> set (tree_nodes w)" using nodes by auto
    show "case node_of w' a of None \<Rightarrow> False
       | Some x \<Rightarrow> (case parentPtr x of None \<Rightarrow> level x = 0
           | Some q \<Rightarrow> q \<in> set (tree_nodes w') \<and> level x = level_of w' q + 1)"
    proof (cases "a = n")
      case True
      then show ?thesis
        using n' nodes par lev_same [of parent] ne plev by simp
    next
      case False
      with a have at: "a \<in> set (tree_nodes w)" by simp
      with ko have old: "case node_of w a of None \<Rightarrow> False
         | Some x \<Rightarrow> (case parentPtr x of None \<Rightarrow> level x = 0
             | Some q \<Rightarrow> q \<in> set (tree_nodes w) \<and> level x = level_of w q + 1)"
        by (simp add: links_ok_def)
      then obtain x where x: "node_of w a = Some x" by (auto split: option.splits)
      from same [OF False] x obtain y where y: "node_of w' a = Some y"
        "level y = level x" "parentPtr y = parentPtr x" by auto
      show ?thesis
      proof (cases "parentPtr x")
        case None
        with old x y show ?thesis by simp
      next
        case (Some q)
        with old x have q: "q \<in> set (tree_nodes w)" "level x = level_of w q + 1" by simp_all
        then have "q \<noteq> n" using fresh by auto
        with q y Some nodes lev_same [of q] show ?thesis by simp
      qed
    qed
  qed
  moreover have "ground_ok w'"
  proof -
    from inv have go: "ground_ok w" by (simp add: tree_inv_def)
    from lp(1) obtain l ls where L: "rbNodeLevels w = l # ls"
      by (cases "rbNodeLevels w") auto
    with go obtain g where g: "l = [g]" "num_of w g = 0"
      by (auto simp: ground_ok_def split: list.splits)
    have "g \<in> set (tree_nodes w)" using L g by (simp add: tree_nodes_def)
    then have "g \<noteq> n" using fresh by auto
    then have "num_of w' g = 0" using num_same g by simp
    moreover have "rbNodeLevels w' =
        l # (if Suc lp < length ?L then ls[lp := ls ! lp @ [n]] else ls @ [[n]])"
      using L' L by simp
    ultimately show ?thesis using g by (simp add: ground_ok_def)
  qed
  ultimately have "tree_inv w'" by (simp add: tree_inv_def)
  moreover have "is_child_of w' n parent" using n' by (simp add: is_child_of_def)
  ultimately show ?thesis
    using res nodes lev_n plev by auto
qed

lemma addGroundNode_establishes:
  assumes "rbNodeLevels w = []" "nodeNum2NodeMap w = []"
  shows "\<exists>w'. addGroundNode w = Inr w' \<and> tree_inv w' \<and> tree_nodes w' = [length (nodeHeap w)] \<and>
           level_of w' (length (nodeHeap w)) = 0 \<and> num_of w' (length (nodeHeap w)) = 0"
  using assms
  by (simp add: addGroundNode_def heap_new_def setLevel_def setNodeNum_def heap_read_def
      resize_def tree_inv_def levels_ok_def nums_ok_def links_ok_def ground_ok_def
      tree_nodes_def node_of_def level_of_def num_of_def getNBodies_def create_ground_def
      Let_def)

lemma example_tree_constructed: "example_construction = Inr example_tree"
  by (simp add: example_construction_def example_start_def example_tree_def addGroundNode_def
      addRigidBodyNode_def heap_new_def setLevel_def setNodeNum_def addChild_def heap_read_def
      resize_def Let_def example_body_def example_other_def create_ground_def)

section \<open>The parent passed to \<^verbatim>\<open>addRigidBodyNode\<close>\<close>




section \<open>Calling \<^verbatim>\<open>realizeConstruction\<close> again\<close>

lemma sizes_inner_Inr:
  "sizes_inner as w = Inr w' \<Longrightarrow>
   \<exists>d q m. w' = w\<lparr>DOFTotal := DOFTotal w + d, SqDOFTotal := SqDOFTotal w + q,
                    maxNQTotal := maxNQTotal w + m\<rparr> \<and>
     (\<forall>v::'a rb_world. nodeHeap v = nodeHeap w \<longrightarrow>
        sizes_inner as v = Inr (v\<lparr>DOFTotal := DOFTotal v + d, SqDOFTotal := SqDOFTotal v + q,
                                   maxNQTotal := maxNQTotal v + m\<rparr>))"
proof (induction as arbitrary: w)
  case Nil
  then have "w' = w\<lparr>DOFTotal := DOFTotal w + 0, SqDOFTotal := SqDOFTotal w + 0,
                    maxNQTotal := maxNQTotal w + 0\<rparr>" by simp
  then show ?case by (intro exI [of _ 0]) simp
next
  case (Cons a as)
  then obtain n where n: "heap_read (nodeHeap w) a = Inr n"
    by (cases "heap_read (nodeHeap w) a") auto
  let ?w1 = "w\<lparr>DOFTotal := DOFTotal w + DOF n, SqDOFTotal := SqDOFTotal w + DOF n * DOF n,
                maxNQTotal := maxNQTotal w + maxNQ n\<rparr>"
  from Cons.prems n have "sizes_inner as ?w1 = Inr w'" by (simp add: Let_def)
  from Cons.IH [OF this] obtain d q m where
    w': "w' = ?w1\<lparr>DOFTotal := DOFTotal ?w1 + d, SqDOFTotal := SqDOFTotal ?w1 + q,
                    maxNQTotal := maxNQTotal ?w1 + m\<rparr>"
    and all: "\<forall>v::'a rb_world. nodeHeap v = nodeHeap ?w1 \<longrightarrow>
        sizes_inner as v = Inr (v\<lparr>DOFTotal := DOFTotal v + d, SqDOFTotal := SqDOFTotal v + q,
                                   maxNQTotal := maxNQTotal v + m\<rparr>)"
    by blast
  show ?case
  proof (rule exI [of _ "DOF n + d"], rule exI [of _ "DOF n * DOF n + q"],
      rule exI [of _ "maxNQ n + m"], intro conjI allI impI)
    show "w' = w\<lparr>DOFTotal := DOFTotal w + (DOF n + d),
        SqDOFTotal := SqDOFTotal w + (DOF n * DOF n + q),
        maxNQTotal := maxNQTotal w + (maxNQ n + m)\<rparr>"
      using w' by (simp add: add.assoc)
  next
    fix v :: "'a rb_world" assume v: "nodeHeap v = nodeHeap w"
    let ?v1 = "v\<lparr>DOFTotal := DOFTotal v + DOF n, SqDOFTotal := SqDOFTotal v + DOF n * DOF n,
                maxNQTotal := maxNQTotal v + maxNQ n\<rparr>"
    have "sizes_inner as ?v1 = Inr (?v1\<lparr>DOFTotal := DOFTotal ?v1 + d,
        SqDOFTotal := SqDOFTotal ?v1 + q, maxNQTotal := maxNQTotal ?v1 + m\<rparr>)"
      using all v by simp
    then show "sizes_inner (a # as) v = Inr (v\<lparr>DOFTotal := DOFTotal v + (DOF n + d),
        SqDOFTotal := SqDOFTotal v + (DOF n * DOF n + q),
        maxNQTotal := maxNQTotal v + (maxNQ n + m)\<rparr>)"
      using n v by (simp add: Let_def add.assoc)
  qed
qed

lemma sizes_outer_Inr:
  "sizes_outer ls w = Inr w' \<Longrightarrow>
   \<exists>d q m. w' = w\<lparr>DOFTotal := DOFTotal w + d, SqDOFTotal := SqDOFTotal w + q,
                    maxNQTotal := maxNQTotal w + m\<rparr> \<and>
     (\<forall>v::'a rb_world. nodeHeap v = nodeHeap w \<longrightarrow>
        sizes_outer ls v = Inr (v\<lparr>DOFTotal := DOFTotal v + d, SqDOFTotal := SqDOFTotal v + q,
                                   maxNQTotal := maxNQTotal v + m\<rparr>))"
proof (induction ls arbitrary: w)
  case Nil
  then have "w' = w\<lparr>DOFTotal := DOFTotal w + 0, SqDOFTotal := SqDOFTotal w + 0,
                    maxNQTotal := maxNQTotal w + 0\<rparr>" by simp
  then show ?case by (intro exI [of _ 0]) simp
next
  case (Cons l ls)
  then obtain w1 where w1: "sizes_inner l w = Inr w1" and rest: "sizes_outer ls w1 = Inr w'"
    by (cases "sizes_inner l w") auto
  from sizes_inner_Inr [OF w1] obtain d1 q1 m1 where
    e1: "w1 = w\<lparr>DOFTotal := DOFTotal w + d1, SqDOFTotal := SqDOFTotal w + q1,
                    maxNQTotal := maxNQTotal w + m1\<rparr>"
    and a1: "\<forall>v::'a rb_world. nodeHeap v = nodeHeap w \<longrightarrow>
        sizes_inner l v = Inr (v\<lparr>DOFTotal := DOFTotal v + d1, SqDOFTotal := SqDOFTotal v + q1,
                                   maxNQTotal := maxNQTotal v + m1\<rparr>)"
    by blast
  from Cons.IH [OF rest] obtain d q m where
    e2: "w' = w1\<lparr>DOFTotal := DOFTotal w1 + d, SqDOFTotal := SqDOFTotal w1 + q,
                    maxNQTotal := maxNQTotal w1 + m\<rparr>"
    and a2: "\<forall>v::'a rb_world. nodeHeap v = nodeHeap w1 \<longrightarrow>
        sizes_outer ls v = Inr (v\<lparr>DOFTotal := DOFTotal v + d, SqDOFTotal := SqDOFTotal v + q,
                                   maxNQTotal := maxNQTotal v + m\<rparr>)"
    by blast
  have h1: "nodeHeap w1 = nodeHeap w" by (subst e1) simp
  show ?case
  proof (rule exI [of _ "d1 + d"], rule exI [of _ "q1 + q"], rule exI [of _ "m1 + m"],
      intro conjI allI impI)
    show "w' = w\<lparr>DOFTotal := DOFTotal w + (d1 + d), SqDOFTotal := SqDOFTotal w + (q1 + q),
        maxNQTotal := maxNQTotal w + (m1 + m)\<rparr>"
      by (subst e2, subst (1 2 3 4) e1) (simp add: add.assoc)
  next
    fix v :: "'a rb_world" assume v: "nodeHeap v = nodeHeap w"
    let ?v1 = "v\<lparr>DOFTotal := DOFTotal v + d1, SqDOFTotal := SqDOFTotal v + q1,
                                   maxNQTotal := maxNQTotal v + m1\<rparr>"
    have i: "sizes_inner l v = Inr ?v1" using a1 v by simp
    have "sizes_outer ls ?v1 = Inr (?v1\<lparr>DOFTotal := DOFTotal ?v1 + d,
        SqDOFTotal := SqDOFTotal ?v1 + q, maxNQTotal := maxNQTotal ?v1 + m\<rparr>)"
      using a2 v h1 by simp
    with i show "sizes_outer (l # ls) v = Inr (v\<lparr>DOFTotal := DOFTotal v + (d1 + d),
        SqDOFTotal := SqDOFTotal v + (q1 + q), maxNQTotal := maxNQTotal v + (m1 + m)\<rparr>)"
      by (simp add: add.assoc)
  qed
qed

lemma example_first_realize:
  "realizeConstruction example_ops (Fin 0) 0 example_constrained = Inr example_realized"
  by (simp add: realizeConstruction_def example_realized_def example_constrained_def
      addDistanceConstraint_def example_tree_def example_ops_def heap_read_def Let_def
      example_body_def example_other_def create_ground_def)

text \<open>
  C6 as stated fails on \<open>example_constrained\<close>. The first call gives
  \<open>example_realized\<close>; a second call, on \<open>example_realized\<close>, is not rejected: it
  returns, with the same totals and a solver constructed anew.
\<close>

theorem C6_second_call_accepted:
  "realizeConstruction example_ops (Fin 0) 0 example_constrained = Inr example_realized \<and>
   realizeConstruction example_ops (Fin 0) 0 example_realized = Inr example_realized"
  by (simp add: realizeConstruction_def example_realized_def example_constrained_def
      addDistanceConstraint_def example_tree_def example_ops_def heap_read_def Let_def
      example_body_def example_other_def create_ground_def)

text \<open>
  C6, as amended. \<^verbatim>\<open>realizeConstruction\<close> keeps no record of having run. A second call,
  with any tolerance and verbosity, on the result of a first one returns: the three size
  totals are those of the first call, computed again from the same levels, and the
  constraint solver is replaced by one constructed anew from the same constraints.
\<close>

theorem C6_second_call_recomputes:
  assumes "realizeConstruction ops ctol verbose w = Inr w1"
  shows "realizeConstruction ops ctol' verbose' w1 =
           Inr (w1\<lparr>lConstraints :=
                     Some (lc_construct ops (lc_create ops ctol' verbose')
                             (distanceConstraints w) (dcRuntimeInfo w))\<rparr>)"
proof -
  let ?z = "\<lambda>v::'a rb_world. v\<lparr>DOFTotal := 0, SqDOFTotal := 0, maxNQTotal := 0\<rparr>"
  from assms obtain w0 where w0: "sizes_outer (rbNodeLevels w) (?z w) = Inr w0"
    and w1: "w1 = w0\<lparr>lConstraints := Some (lc_construct ops (lc_create ops ctol verbose)
                            (distanceConstraints w0) (dcRuntimeInfo w0))\<rparr>"
    by (auto simp: realizeConstruction_def split: sum.splits)
  from sizes_outer_Inr [OF w0] obtain d q m where
    e: "w0 = (?z w)\<lparr>DOFTotal := DOFTotal (?z w) + d, SqDOFTotal := SqDOFTotal (?z w) + q,
                    maxNQTotal := maxNQTotal (?z w) + m\<rparr>"
    and a: "\<forall>v::'a rb_world. nodeHeap v = nodeHeap (?z w) \<longrightarrow>
        sizes_outer (rbNodeLevels w) v = Inr (v\<lparr>DOFTotal := DOFTotal v + d,
          SqDOFTotal := SqDOFTotal v + q, maxNQTotal := maxNQTotal v + m\<rparr>)"
    by blast
  have f: "nodeHeap w1 = nodeHeap w" "rbNodeLevels w1 = rbNodeLevels w"
    "distanceConstraints w1 = distanceConstraints w" "dcRuntimeInfo w1 = dcRuntimeInfo w"
    "DOFTotal w1 = d" "SqDOFTotal w1 = q" "maxNQTotal w1 = m"
    by (subst w1, subst e, simp)+
  have "sizes_outer (rbNodeLevels w) (?z w1) = Inr ((?z w1)\<lparr>DOFTotal := DOFTotal (?z w1) + d,
          SqDOFTotal := SqDOFTotal (?z w1) + q, maxNQTotal := maxNQTotal (?z w1) + m\<rparr>)"
    using a f(1) by simp
  also have "(?z w1)\<lparr>DOFTotal := DOFTotal (?z w1) + d,
          SqDOFTotal := SqDOFTotal (?z w1) + q, maxNQTotal := maxNQTotal (?z w1) + m\<rparr> = w1"
    using f(5-7) by simp
  finally show ?thesis
    by (simp add: realizeConstruction_def f)
qed

theorem C6_second_call_recomputes_witness:
  "realizeConstruction example_ops (Fin 0) 0 example_constrained = Inr example_realized \<and>
   realizeConstruction example_ops (Fin 1) 1 example_realized =
     Inr (example_realized\<lparr>lConstraints := Some 0\<rparr>)"
  using C6_second_call_recomputes [OF example_first_realize, of "Fin 1" 1] example_first_realize
  by (simp add: example_ops_def)

section \<open>Forward dynamics with loop constraints\<close>

lemma calcAccel_inner_ok:
  "\<forall>a\<in>set as. live (nodeHeap w) a \<Longrightarrow>
   calcAccel_inner as w = Inr (w\<lparr>calls := calls w @ map CalcAccel as\<rparr>)"
proof (induction as arbitrary: w)
  case Nil
  then show ?case by simp
next
  case (Cons a as)
  then obtain n where "heap_read (nodeHeap w) a = Inr n"
    using heap_read_live [of "nodeHeap w" a] by auto
  with Cons show ?case by (simp add: node_calcAccel_def)
qed

lemma calcAccel_outer_ok:
  "\<forall>a\<in>set (concat ls). live (nodeHeap w) a \<Longrightarrow>
   calcAccel_outer ls w = Inr (w\<lparr>calls := calls w @ map CalcAccel (concat ls)\<rparr>)"
proof (induction ls arbitrary: w)
  case Nil
  then show ?case by simp
next
  case (Cons l ls)
  have "calcAccel_inner l w = Inr (w\<lparr>calls := calls w @ map CalcAccel l\<rparr>)"
    using Cons.prems by (intro calcAccel_inner_ok) simp
  moreover have "calcAccel_outer ls (w\<lparr>calls := calls w @ map CalcAccel l\<rparr>) =
      Inr (w\<lparr>calls := (calls w @ map CalcAccel l) @ map CalcAccel (concat ls)\<rparr>)"
    using Cons.IH [of "w\<lparr>calls := calls w @ map CalcAccel l\<rparr>"] Cons.prems by simp
  ultimately show ?case by simp
qed

lemma calcTreeAccel_ok:
  assumes "tree_inv w"
  shows "calcTreeAccel w = Inr (w\<lparr>calls := calls w @ map CalcAccel (tree_nodes w)\<rparr>)"
  unfolding calcTreeAccel_def
  using calcAccel_outer_ok [of "rbNodeLevels w" w] tree_live [OF assms]
  by (simp add: tree_nodes_def)

lemma calcAccInfo_ok:
  "dc_ready h k dc \<Longrightarrow> \<exists>rt'. calcAccInfo h dc rt = Inr rt'"
  by (auto simp: dc_ready_def calcAccInfo_def station_calcAccInfo_def getNode_def heap_read_def
      live_def Let_def split: option.splits)

lemma accInfo_loop_ok:
  "\<forall>dc\<in>set dcs. dc_ready (nodeHeap w) (length (dcRuntimeInfo w)) dc \<Longrightarrow>
   \<exists>rts. accInfo_loop dcs w = Inr (w\<lparr>dcRuntimeInfo := rts\<rparr>) \<and>
         length rts = length (dcRuntimeInfo w)"
proof (induction dcs arbitrary: w)
  case Nil
  have "w = w\<lparr>dcRuntimeInfo := dcRuntimeInfo w\<rparr>" by simp
  then show ?case by (metis accInfo_loop.simps(1))
next
  case (Cons dc dcs)
  then have r: "dc_ready (nodeHeap w) (length (dcRuntimeInfo w)) dc" by simp
  then have idx: "\<not> (runtimeIndex dc < 0 \<or> int (length (dcRuntimeInfo w)) \<le> runtimeIndex dc)"
    by (auto simp: dc_ready_def)
  from calcAccInfo_ok [OF r] obtain rt where
    rt: "calcAccInfo (nodeHeap w) dc (dcRuntimeInfo w ! nat (runtimeIndex dc)) = Inr rt"
    by blast
  let ?w1 = "w\<lparr>dcRuntimeInfo := (dcRuntimeInfo w)[nat (runtimeIndex dc) := rt]\<rparr>"
  have "\<forall>d\<in>set dcs. dc_ready (nodeHeap ?w1) (length (dcRuntimeInfo ?w1)) d"
    using Cons.prems by simp
  from Cons.IH [OF this] obtain rts where
    "accInfo_loop dcs ?w1 = Inr (?w1\<lparr>dcRuntimeInfo := rts\<rparr>)"
    "length rts = length (dcRuntimeInfo ?w1)" by blast
  with idx rt show ?case by (intro exI [of _ rts]) simp
qed

lemma tree_inv_frame:
  assumes "nodeHeap w' = nodeHeap w" "rbNodeLevels w' = rbNodeLevels w"
    "nodeNum2NodeMap w' = nodeNum2NodeMap w"
  shows "tree_inv w' = tree_inv w" "getNBodies w' = getNBodies w"
    "tfd_calls w' f = tfd_calls w f"
proof -
  have n: "node_of w' = node_of w" using assms by (simp add: fun_eq_iff node_of_def)
  have l: "level_of w' = level_of w" "num_of w' = num_of w"
    by (simp_all add: fun_eq_iff level_of_def num_of_def n)
  have t: "tree_nodes w' = tree_nodes w" "tip_to_base w' = tip_to_base w"
    using assms by (simp_all add: tree_nodes_def tip_to_base_def)
  show "getNBodies w' = getNBodies w" using assms by (simp add: getNBodies_def)
  then show "tree_inv w' = tree_inv w"
    using assms(2)
    by (simp add: tree_inv_def levels_ok_def nums_ok_def links_ok_def ground_ok_def n l t
        cong: option.case_cong list.case_cong)
  show "tfd_calls w' f = tfd_calls w f"
    by (simp add: tfd_calls_def slot_of_def l t)
qed

lemma calcTreeForwardDynamics_ok:
  assumes "tree_inv w" "constraints_ready w" "getNBodies w \<le> length f"
  shows "\<exists>rts. calcTreeForwardDynamics f w =
            Inr (w\<lparr>dcRuntimeInfo := rts, calls := calls w @ tfd_calls w f\<rparr>) \<and>
          length rts = length (dcRuntimeInfo w)"
proof -
  let ?w1 = "w\<lparr>calls := calls w @ map (\<lambda>a. CalcZ a (slot_of w f a)) (tip_to_base w)\<rparr>"
  let ?w2 = "?w1\<lparr>calls := calls ?w1 @ map CalcAccel (tree_nodes ?w1)\<rparr>"
  have z: "calcZ f w = Inr ?w1" by (rule calcZ_ok [OF assms(1,3)])
  have "tree_inv ?w1" using assms(1) tree_inv_frame(1) [of ?w1 w] by simp
  then have a: "calcTreeAccel ?w1 = Inr ?w2" by (rule calcTreeAccel_ok)
  have "\<forall>dc\<in>set (distanceConstraints ?w1).
          dc_ready (nodeHeap ?w2) (length (dcRuntimeInfo ?w2)) dc"
    using assms(2) by (simp add: constraints_ready_def)
  from accInfo_loop_ok [OF this] obtain rts where
    l: "accInfo_loop (distanceConstraints ?w1) ?w2 = Inr (?w2\<lparr>dcRuntimeInfo := rts\<rparr>)"
    and n: "length rts = length (dcRuntimeInfo ?w2)" by blast
  have "?w2\<lparr>dcRuntimeInfo := rts\<rparr> = w\<lparr>dcRuntimeInfo := rts, calls := calls w @ tfd_calls w f\<rparr>"
    by (simp add: tfd_calls_def tree_nodes_def)
  with z a l n show ?thesis
    by (intro exI [of _ rts]) (simp add: calcTreeForwardDynamics_def)
qed

lemma constraints_ready_frame:
  assumes "nodeHeap w' = nodeHeap w" "distanceConstraints w' = distanceConstraints w"
    "length (dcRuntimeInfo w') = length (dcRuntimeInfo w)"
  shows "constraints_ready w' = constraints_ready w"
  using assms by (simp add: constraints_ready_def)

lemma example_realized_inv: "tree_inv example_realized"
  using example_tree_inv
    tree_inv_frame(1) [of example_realized example_tree]
  by (simp add: example_realized_def example_constrained_def addDistanceConstraint_def Let_def)

lemma example_realized_ready: "constraints_ready example_realized"
  by (simp add: constraints_ready_def example_realized_def example_constrained_def
      addDistanceConstraint_def Let_def dc_ready_def isValid_def dle_def live_def
      example_tree_def)

text \<open>
  C2. In a tree that satisfies the forest invariants, with constraints ready to be
  evaluated, a constraint solver present and a force list with an entry for every body
  (which the solver's correction keeps at the same length),
  \<^verbatim>\<open>calcLoopForwardDynamics\<close> returns. It first runs \<^verbatim>\<open>calcTreeForwardDynamics\<close>
  with the given forces. If the solver then reports that a correction is needed, the
  local copy holds the corrected forces and \<^verbatim>\<open>calcTreeForwardDynamics\<close> runs once
  more, with them: the node calls made are those of the two runs, and nothing more.
  Otherwise the local copy is as given and the node calls made are those of the first run
  alone. In both cases the caller's force list is as it was.
\<close>

theorem C2_single_corrective_pass:
  assumes inv: "tree_inv w" and rdy: "constraints_ready w"
    and lc: "lConstraints w = Some lc"
    and len: "getNBodies w \<le> length spatialForces"
    and keep: "\<And>l. length (lc_addInCorrectionForces ops l spatialForces) = length spatialForces"
  shows "\<exists>w1 w' fr.
           calcTreeForwardDynamics spatialForces w = Inr w1 \<and>
           calcLoopForwardDynamics ops spatialForces w = Inr (w', fr) \<and>
           spatialForces_arg fr = spatialForces \<and>
           (let (needed, lc1) = lc_calcConstraintForces ops lc (dcRuntimeInfo w1);
                corrected = lc_addInCorrectionForces ops lc1 spatialForces
            in if needed
               then sFrc fr = corrected \<and>
                    calcTreeForwardDynamics corrected (w1\<lparr>lConstraints := Some lc1\<rparr>) = Inr w' \<and>
                    calls_made w w' = tfd_calls w spatialForces @ tfd_calls w corrected
               else sFrc fr = spatialForces \<and> w' = w1\<lparr>lConstraints := Some lc1\<rparr> \<and>
                    calls_made w w' = tfd_calls w spatialForces)"
proof -
  from calcTreeForwardDynamics_ok [OF inv rdy len] obtain rts where
    first: "calcTreeForwardDynamics spatialForces w =
        Inr (w\<lparr>dcRuntimeInfo := rts, calls := calls w @ tfd_calls w spatialForces\<rparr>)"
    and rts: "length rts = length (dcRuntimeInfo w)" by blast
  let ?w1 = "w\<lparr>dcRuntimeInfo := rts, calls := calls w @ tfd_calls w spatialForces\<rparr>"
  obtain needed lc1 where s: "lc_calcConstraintForces ops lc rts = (needed, lc1)"
    by (cases "lc_calcConstraintForces ops lc rts") auto
  let ?w2 = "?w1\<lparr>lConstraints := Some lc1\<rparr>"
  let ?c = "lc_addInCorrectionForces ops lc1 spatialForces"
  have lc1: "lConstraints ?w1 = Some lc" using lc by simp
  show ?thesis
  proof (cases needed)
    case False
    have "calcLoopForwardDynamics ops spatialForces w =
        Inr (?w2, \<lparr>spatialForces_arg = spatialForces, sFrc = spatialForces\<rparr>)"
      using first lc s False by (simp add: calcLoopForwardDynamics_def)
    moreover have "calls_made w ?w2 = tfd_calls w spatialForces"
      by (simp add: calls_made_def)
    ultimately show ?thesis
      using first s False
      by (intro exI [of _ ?w1] exI [of _ ?w2]
          exI [of _ "\<lparr>spatialForces_arg = spatialForces, sFrc = spatialForces\<rparr>"]) simp
  next
    case True
    have inv2: "tree_inv ?w2" using inv tree_inv_frame(1) [of ?w2 w] by simp
    have rdy2: "constraints_ready ?w2"
      using rdy rts constraints_ready_frame [of ?w2 w] by simp
    have len2: "getNBodies ?w2 \<le> length ?c"
      using len keep [of lc1] tree_inv_frame(2) [of ?w2 w] by simp
    from calcTreeForwardDynamics_ok [OF inv2 rdy2 len2] obtain rts2 where
      second: "calcTreeForwardDynamics ?c ?w2 =
        Inr (?w2\<lparr>dcRuntimeInfo := rts2, calls := calls ?w2 @ tfd_calls ?w2 ?c\<rparr>)"
      by blast
    let ?w3 = "?w2\<lparr>dcRuntimeInfo := rts2, calls := calls ?w2 @ tfd_calls ?w2 ?c\<rparr>"
    have t: "tfd_calls ?w2 ?c = tfd_calls w ?c"
      using tree_inv_frame(3) [of ?w2 w] by simp
    have "calcLoopForwardDynamics ops spatialForces w =
        Inr (?w3, \<lparr>spatialForces_arg = spatialForces, sFrc = ?c\<rparr>)"
      using first lc s True second by (simp add: calcLoopForwardDynamics_def)
    moreover have "calls_made w ?w3 = tfd_calls w spatialForces @ tfd_calls w ?c"
      by (simp add: calls_made_def t)
    ultimately show ?thesis
      using first s True second
      by (intro exI [of _ ?w1] exI [of _ ?w3]
          exI [of _ "\<lparr>spatialForces_arg = spatialForces, sFrc = ?c\<rparr>"]) simp
  qed
qed

theorem C2_single_corrective_pass_witness:
  "tree_inv example_realized \<and> constraints_ready example_realized \<and>
   lConstraints example_realized = Some 0 \<and>
   getNBodies example_realized \<le> length example_forces \<and>
   (\<exists>w' fr. calcLoopForwardDynamics example_ops example_forces example_realized = Inr (w', fr) \<and>
      spatialForces_arg fr = example_forces \<and>
      sFrc fr = map (\<lambda>f. (zero3, zero3)) example_forces \<and>
      calls_made example_realized w' =
        tfd_calls example_realized example_forces @
        tfd_calls example_realized (map (\<lambda>f. (zero3, zero3)) example_forces))"
proof -
  have l: "lConstraints example_realized = Some 0"
    by (simp add: example_realized_def)
  have n: "getNBodies example_realized \<le> length example_forces"
    by (simp add: getNBodies_def example_realized_def example_constrained_def
        addDistanceConstraint_def Let_def example_tree_def example_forces_def)
  have k: "\<And>l. length (lc_addInCorrectionForces example_ops l example_forces) =
      length example_forces"
    by (simp add: example_ops_def)
  have c: "\<And>rts. lc_calcConstraintForces example_ops 0 rts = (True, Suc 0)"
    "\<And>l fs. lc_addInCorrectionForces example_ops l fs = map (\<lambda>f. (zero3, zero3)) fs"
    by (simp_all add: example_ops_def)
  from C2_single_corrective_pass [OF example_realized_inv example_realized_ready l n k]
  have "\<exists>w' fr. calcLoopForwardDynamics example_ops example_forces example_realized = Inr (w', fr) \<and>
      spatialForces_arg fr = example_forces \<and>
      sFrc fr = map (\<lambda>f. (zero3, zero3)) example_forces \<and>
      calls_made example_realized w' =
        tfd_calls example_realized example_forces @
        tfd_calls example_realized (map (\<lambda>f. (zero3, zero3)) example_forces)"
    by (auto simp: c Let_def)
  with example_realized_inv example_realized_ready l n show ?thesis by simp
qed

section \<open>The position stage of a distance constraint\<close>




lemma is_finite_cases:
  assumes "is_finite x" obtains a where "x = Fin a"
  using assms by (cases x) auto




lemma calcPosInfo_eq:
  assumes "isValid dc" "0 \<le> runtimeIndex dc"
    and "getNode h (fst (stations dc)) = Inr n1" "getNode h (snd (stations dc)) = Inr n2"
  shows "calcPosInfo h dc rt =
     Inr (rt\<lparr>stationRuntimes :=
               ((fst (stationRuntimes rt))
                  \<lparr>station_G := station_offset n1 (fst (stations dc)),
                   pos_G := station_world n1 (fst (stations dc))\<rparr>,
                (snd (stationRuntimes rt))
                  \<lparr>station_G := station_offset n2 (snd (stations dc)),
                   pos_G := station_world n2 (snd (stations dc))\<rparr>),
             fromTip1ToTip2_G :=
               vsub (station_world n2 (snd (stations dc))) (station_world n1 (fst (stations dc))),
             unitDirection_G :=
               vdivs (vsub (station_world n2 (snd (stations dc)))
                           (station_world n1 (fst (stations dc))))
                     (norm3 (vsub (station_world n2 (snd (stations dc)))
                                  (station_world n1 (fst (stations dc))))),
             posErr :=
               dsub (distance dc)
                    (norm3 (vsub (station_world n2 (snd (stations dc)))
                                 (station_world n1 (fst (stations dc)))))\<rparr>)"
  using assms
  by (simp add: calcPosInfo_def station_calcPosInfo_def Let_def station_world_def
      station_offset_def)

lemma dsub_zero_iff: "dsub (Fin d) s = Fin 0 \<longleftrightarrow> s = Fin d"
  by (cases s) (auto simp: dsub_def)

lemma dsub_pos_iff: "dless (Fin 0) (dsub (Fin d) s) \<longleftrightarrow> dless s (Fin d)"
  by (cases s) (auto simp: dsub_def)

lemma ddiv_sign: "dless (Fin 0) s \<Longrightarrow> sign_agrees (ddiv x s) x"
  by (cases x; cases s) (auto simp: sign_agrees_def divide_less_0_iff zero_less_divide_iff)

lemma vdivs_along: "dless (Fin 0) s \<Longrightarrow> along (vdivs v s) v"
  by (cases v) (simp add: ddiv_sign)

lemma sqrt_25: "sqrt 25 = (5::real)"
  by (rule real_sqrt_unique) simp_all


text \<open>
  C3 as stated fails on \<open>example_same_point\<close>, whose two stations are the same point
  of one body. The position stage returns, and the unit direction it stores has no
  direction: each component is NaN.
\<close>

theorem C3_same_point_direction_undefined:
  "\<not> isl (calcPosInfo (nodeHeap example_tree) example_same_point example_runtime) \<and>
   unitDirection_G (projr (calcPosInfo (nodeHeap example_tree) example_same_point example_runtime)) =
     Vec3 NaN NaN NaN"
  by (simp add: calcPosInfo_def station_calcPosInfo_def getNode_def heap_read_def isValid_def
      dle_def example_same_point_def example_tree_def example_runtime_def example_body_def
      create_ground_def identity33_def zero3_def norm3_def normSqr_def dsub_def Let_def)

text \<open>
  C3, as amended. The statement is about the values the code computes, operation by
  operation, and uses of the arithmetic only what does not depend on rounding: a
  difference of two values, one of them finite, is zero exactly when they are equal and
  positive exactly when the value taken away is the smaller, and a quotient by a positive
  value does not have the sign opposite to its numerator.

  For a valid distance constraint with a finite target distance whose stations sit on
  live nodes, the position stage returns. The stored separation vector is the second
  station's computed world position minus the first's, and the computed separation is its
  norm. The position error is the target distance minus the computed separation: it is
  zero exactly when the computed separation equals the target, and positive exactly when
  the computed separation is less than the target. The stored direction is the separation
  vector divided, component by component, by the computed separation; when the computed
  separation is positive, no component of the stored direction has the sign opposite to
  that of the vector from the first station to the second.
\<close>

theorem C3_position_stage_values:
  assumes valid: "isValid dc" "0 \<le> runtimeIndex dc"
    and nodes: "getNode h (fst (stations dc)) = Inr n1" "getNode h (snd (stations dc)) = Inr n2"
    and d: "is_finite (distance dc)"
  shows "let sep_G = vsub (station_world n2 (snd (stations dc)))
                          (station_world n1 (fst (stations dc)));
             s = norm3 sep_G
         in \<exists>rt'. calcPosInfo h dc rt = Inr rt' \<and>
              fromTip1ToTip2_G rt' = sep_G \<and>
              posErr rt' = dsub (distance dc) s \<and>
              (posErr rt' = Fin 0 \<longleftrightarrow> s = distance dc) \<and>
              (dless (Fin 0) (posErr rt') \<longleftrightarrow> dless s (distance dc)) \<and>
              unitDirection_G rt' = vdivs sep_G s \<and>
              (dless (Fin 0) s \<longrightarrow> along (unitDirection_G rt') sep_G)"
proof -
  from d obtain dd where dd: "distance dc = Fin dd" by (rule is_finite_cases)
  show ?thesis
    unfolding Let_def calcPosInfo_eq [OF valid nodes]
    by (simp add: dd dsub_zero_iff dsub_pos_iff vdivs_along)
qed

theorem C3_position_stage_values_witness:
  "isValid example_apart \<and> 0 \<le> runtimeIndex example_apart \<and>
   is_finite (distance example_apart) \<and>
   getNode (nodeHeap example_tree) (fst (stations example_apart)) =
     Inr (example_body\<lparr>level := 1, nodeNum := 1, parentPtr := Some 5,
                        children := [(2, example_ref)]\<rparr>) \<and>
   getNode (nodeHeap example_tree) (snd (stations example_apart)) =
     Inr (example_body\<lparr>level := 1, nodeNum := 2, parentPtr := Some 5\<rparr>) \<and>
   (\<exists>rt'. calcPosInfo (nodeHeap example_tree) example_apart example_runtime = Inr rt' \<and>
      fromTip1ToTip2_G rt' = Vec3 (Fin 3) (Fin 0) (Fin 4) \<and>
      posErr rt' = Fin (- 3) \<and> posErr rt' \<noteq> Fin 0 \<and> \<not> dless (Fin 0) (posErr rt') \<and>
      unitDirection_G rt' = Vec3 (Fin (3 / 5)) (Fin 0) (Fin (4 / 5)) \<and>
      along (unitDirection_G rt') (Vec3 (Fin 3) (Fin 0) (Fin 4)))"
proof -
  let ?n1 = "example_body\<lparr>level := 1, nodeNum := 1, parentPtr := Some 5,
                        children := [(2, example_ref)]\<rparr>"
  let ?n2 = "example_body\<lparr>level := 1, nodeNum := 2, parentPtr := Some 5\<rparr>"
  have v: "isValid example_apart" "0 \<le> runtimeIndex example_apart"
    by (simp_all add: isValid_def dle_def example_apart_def)
  have g: "getNode (nodeHeap example_tree) (fst (stations example_apart)) = Inr ?n1"
    "getNode (nodeHeap example_tree) (snd (stations example_apart)) = Inr ?n2"
    by (simp_all add: getNode_def heap_read_def example_apart_def example_tree_def)
  have d: "is_finite (distance example_apart)" "distance example_apart = Fin 2"
    by (simp_all add: example_apart_def)
  have p: "vsub (station_world ?n2 (snd (stations example_apart)))
                (station_world ?n1 (fst (stations example_apart))) = Vec3 (Fin 3) (Fin 0) (Fin 4)"
    by (simp add: station_world_def station_offset_def example_apart_def example_body_def
        create_ground_def identity33_def zero3_def dsub_def)
  have s: "norm3 (Vec3 (Fin 3) (Fin 0) (Fin 4)) = Fin 5"
    by (simp add: norm3_def normSqr_def sqrt_25)
  from C3_position_stage_values [OF v g d(1), of example_runtime] v g d(1) show ?thesis
    by (auto simp: p s d(2) Let_def dsub_def)
qed




section \<open>The acceleration error\<close>

text \<open>
  C4. For a valid distance constraint whose stations sit on live nodes, the position,
  velocity and acceleration stages run one after the other on the constraint's runtime
  record all return, and the acceleration error is the literal formula: the squared
  magnitude of the relative station velocity, plus the dot product of the relative station
  acceleration with the separation vector from the first station to the second, which is
  not normalized.
\<close>

theorem C4_acceleration_error_formula:
  assumes valid: "isValid dc" "0 \<le> runtimeIndex dc"
    and nodes: "getNode h (fst (stations dc)) = Inr n1" "getNode h (snd (stations dc)) = Inr n2"
  shows "\<exists>rt1 rt2 rt3.
           calcPosInfo h dc rt = Inr rt1 \<and> calcVelInfo h dc rt1 = Inr rt2 \<and>
           calcAccInfo h dc rt2 = Inr rt3 \<and>
           accErr rt3 =
             dadd (normSqr (vsub (station_velocity n2 (snd (stations dc)))
                                 (station_velocity n1 (fst (stations dc)))))
                  (vdot (vsub (station_acceleration n2 (snd (stations dc)))
                              (station_acceleration n1 (fst (stations dc))))
                        (vsub (station_world n2 (snd (stations dc)))
                              (station_world n1 (fst (stations dc)))))"
  using assms
  by (simp add: calcPosInfo_def calcVelInfo_def calcAccInfo_def station_calcPosInfo_def
      station_calcVelInfo_def station_calcAccInfo_def Let_def station_world_def
      station_offset_def station_velocity_def station_acceleration_def)

theorem C4_acceleration_error_formula_witness:
  "isValid example_link \<and> 0 \<le> runtimeIndex example_link \<and>
   (\<exists>rt1 rt2 rt3.
      calcPosInfo example_moving example_link example_runtime = Inr rt1 \<and>
      calcVelInfo example_moving example_link rt1 = Inr rt2 \<and>
      calcAccInfo example_moving example_link rt2 = Inr rt3 \<and>
      accErr rt3 = Fin 4)"
proof -
  let ?n1 = "example_body"
  let ?n2 = "example_body\<lparr>OB_G := Vec3 (Fin 3) (Fin 0) (Fin 4),
                          spatialLinVel := Vec3 (Fin 1) (Fin 0) (Fin 0),
                          spatialLinAcc := Vec3 (Fin 1) (Fin 0) (Fin 0)\<rparr>"
  have v: "isValid example_link" "0 \<le> runtimeIndex example_link"
    by (simp_all add: isValid_def dle_def example_link_def)
  have g: "getNode example_moving (fst (stations example_link)) = Inr ?n1"
    "getNode example_moving (snd (stations example_link)) = Inr ?n2"
    by (simp_all add: getNode_def heap_read_def example_link_def example_moving_def)
  have e: "dadd (normSqr (vsub (station_velocity ?n2 (snd (stations example_link)))
                                 (station_velocity ?n1 (fst (stations example_link)))))
                  (vdot (vsub (station_acceleration ?n2 (snd (stations example_link)))
                              (station_acceleration ?n1 (fst (stations example_link))))
                        (vsub (station_world ?n2 (snd (stations example_link)))
                              (station_world ?n1 (fst (stations example_link))))) = Fin 4"
    by (simp add: station_velocity_def station_acceleration_def station_world_def
        station_offset_def example_link_def example_body_def create_ground_def identity33_def
        zero3_def normSqr_def dsub_def)
  from C4_acceleration_error_formula [OF v g, of example_runtime] v show ?thesis
    unfolding e by blast
qed

end
